theory Spec2Isabelle
  imports Complex_Main "HOL-Library.Char_ord" "HOL-Library.List_Lexorder"
    "HOL-Library.Multiset" "HOL-Library.Sublist"
begin

section \<open>KRYV-MCP host agent (oracle-agent.py)\<close>

text \<open>
  A shallow embedding of \<^verbatim>\<open>oracle-agent.py\<close>. Everything the script does to the
  outside (file writes, HTTP requests, log lines) is recorded in a trace carried by an
  explicit world; everything the outside answers (the outcome of a write, the reply to
  a request, a clock reading, a directory listing) is read from an environment. The
  environment is indexed by the number of effects performed so far, so that two
  requests of one run may be answered differently.

  Python raises are values: a function that can raise returns \<open>exn + 'a\<close> (\<open>Inl\<close> the
  exception); one that also acts on the world returns that together with the world it
  leaves behind.
\<close>

subsection \<open>Exceptions\<close>

datatype exn =
    OSError              \<comment> \<open>any other I/O error, e.g. disk full\<close>
  | PermissionError      \<comment> \<open>subclass of OSError\<close>
  | FileNotFoundError    \<comment> \<open>subclass of OSError\<close>
  | ValueError
  | OverflowError
  | UnicodeError         \<comment> \<open>subclass of ValueError\<close>
  | AttributeError
  | ImportError
  | TimeoutExpired       \<comment> \<open>subprocess.TimeoutExpired\<close>
  | ConnectionError      \<comment> \<open>requests.ConnectionError: refused, DNS failure\<close>
  | Timeout              \<comment> \<open>requests.Timeout\<close>
  | TooManyRedirects     \<comment> \<open>requests.TooManyRedirects\<close>
  | JSONDecodeError      \<comment> \<open>requests.exceptions.JSONDecodeError\<close>

text \<open>\<^verbatim>\<open>isinstance(e, requests.RequestException)\<close>\<close>

fun is_RequestException :: "exn \<Rightarrow> bool" where
  "is_RequestException ConnectionError = True"
| "is_RequestException Timeout = True"
| "is_RequestException TooManyRedirects = True"
| "is_RequestException JSONDecodeError = True"
| "is_RequestException _ = False"

text \<open>\<^verbatim>\<open>isinstance(e, PermissionError)\<close>\<close>

fun is_PermissionError :: "exn \<Rightarrow> bool" where
  "is_PermissionError PermissionError = True"
| "is_PermissionError _ = False"

text \<open>\<^verbatim>\<open>isinstance(e, ImportError)\<close>\<close>

fun is_ImportError :: "exn \<Rightarrow> bool" where
  "is_ImportError ImportError = True"
| "is_ImportError _ = False"

subsection \<open>Dates and their ISO-8601 text\<close>

text \<open>
  A Python \<^verbatim>\<open>datetime\<close> (naive). The class keeps its fields in range
  (\<open>valid_datetime\<close>) and compares two values field by field, most significant first.
\<close>

record datetime =
  year :: nat
  month :: nat
  day :: nat
  hour :: nat
  minute :: nat
  second :: nat
  microsecond :: nat

definition valid_datetime :: "datetime \<Rightarrow> bool" where
  "valid_datetime d \<longleftrightarrow>
     1 \<le> year d \<and> year d \<le> 9999 \<and> 1 \<le> month d \<and> month d \<le> 12 \<and>
     1 \<le> day d \<and> day d \<le> 31 \<and> hour d < 24 \<and> minute d < 60 \<and> second d < 60 \<and>
     microsecond d < 1000000"

definition dt_fields :: "datetime \<Rightarrow> nat list" where
  "dt_fields d = [year d, month d, day d, hour d, minute d, second d, microsecond d]"

definition dt_less :: "datetime \<Rightarrow> datetime \<Rightarrow> bool" where
  "dt_less a b \<longleftrightarrow> dt_fields a < dt_fields b"

definition dt_le :: "datetime \<Rightarrow> datetime \<Rightarrow> bool" where
  "dt_le a b \<longleftrightarrow> dt_fields a \<le> dt_fields b"

definition digit_char :: "nat \<Rightarrow> char" where
  "digit_char d = ''0123456789'' ! d"

text \<open>\<^verbatim>\<open>"%0wd" % n\<close> for a field \<open>n < 10 ^ w\<close>: exactly \<open>w\<close> digits.\<close>

fun zpad :: "nat \<Rightarrow> nat \<Rightarrow> string" where
  "zpad 0 n = []"
| "zpad (Suc w) n = zpad w (n div 10) @ [digit_char (n mod 10)]"

text \<open>
  \<^verbatim>\<open>datetime.isoformat()\<close>: \<^verbatim>\<open>YYYY-MM-DDTHH:MM:SS.ffffff\<close>, and without the
  fraction when the microsecond is 0.
\<close>

definition isoformat :: "datetime \<Rightarrow> string" where
  "isoformat d =
     zpad 4 (year d) @ ''-'' @ zpad 2 (month d) @ ''-'' @ zpad 2 (day d) @ ''T'' @
     zpad 2 (hour d) @ '':'' @ zpad 2 (minute d) @ '':'' @ zpad 2 (second d) @
     (if microsecond d = 0 then [] else ''.'' @ zpad 6 (microsecond d))"

text \<open>Reading the text back (the inverse direction of \<^verbatim>\<open>datetime.fromisoformat\<close>).\<close>

definition digit_val :: "char \<Rightarrow> nat option" where
  "digit_val c = map_of (zip ''0123456789'' [0, 1, 2, 3, 4, 5, 6, 7, 8, 9]) c"

fun read_nat :: "nat \<Rightarrow> string \<Rightarrow> nat option" where
  "read_nat acc [] = Some acc"
| "read_nat acc (c # cs) =
     (case digit_val c of None \<Rightarrow> None | Some v \<Rightarrow> read_nat (10 * acc + v) cs)"

text \<open>The first \<open>k\<close> characters as a number, and the rest of the text.\<close>

definition take_digits :: "nat \<Rightarrow> string \<Rightarrow> (nat \<times> string) option" where
  "take_digits k s =
     (if length s < k then None
      else (case read_nat 0 (take k s) of None \<Rightarrow> None | Some n \<Rightarrow> Some (n, drop k s)))"

definition expect :: "char \<Rightarrow> string \<Rightarrow> string option" where
  "expect c s = (case s of [] \<Rightarrow> None | x # r \<Rightarrow> if x = c then Some r else None)"

definition parse_fraction :: "string \<Rightarrow> nat option" where
  "parse_fraction s =
     (if s = [] then Some 0
      else Option.bind (expect CHR ''.'' s) (\<lambda>s1.
           Option.bind (take_digits 6 s1) (\<lambda>(us, s2).
           if s2 = [] then Some us else None)))"

definition parse_date :: "string \<Rightarrow> ((nat \<times> nat \<times> nat) \<times> string) option" where
  "parse_date s0 =
     Option.bind (take_digits 4 s0) (\<lambda>(y, s1).
     Option.bind (expect CHR ''-'' s1) (\<lambda>s2.
     Option.bind (take_digits 2 s2) (\<lambda>(mo, s3).
     Option.bind (expect CHR ''-'' s3) (\<lambda>s4.
     Option.bind (take_digits 2 s4) (\<lambda>(d, s5). Some ((y, mo, d), s5))))))"

definition parse_time :: "string \<Rightarrow> ((nat \<times> nat \<times> nat) \<times> string) option" where
  "parse_time s0 =
     Option.bind (take_digits 2 s0) (\<lambda>(h, s1).
     Option.bind (expect CHR '':'' s1) (\<lambda>s2.
     Option.bind (take_digits 2 s2) (\<lambda>(mi, s3).
     Option.bind (expect CHR '':'' s3) (\<lambda>s4.
     Option.bind (take_digits 2 s4) (\<lambda>(sec, s5). Some ((h, mi, sec), s5))))))"

definition fromisoformat :: "string \<Rightarrow> datetime option" where
  "fromisoformat s0 =
     Option.bind (parse_date s0) (\<lambda>((y, mo, d), s1).
     Option.bind (expect CHR ''T'' s1) (\<lambda>s2.
     Option.bind (parse_time s2) (\<lambda>((h, mi, sec), s3).
     Option.bind (parse_fraction s3) (\<lambda>us.
       (let r = \<lparr>year = y, month = mo, day = d, hour = h, minute = mi, second = sec,
                 microsecond = us\<rparr>
        in if valid_datetime r then Some r else None)))))"

subsection \<open>JSON values and dictionaries\<close>

text \<open>
  A Python \<^verbatim>\<open>dict\<close> with string keys keeps insertion order: an association list.
  Two dicts are equal in Python when they hold the same keys with the same values,
  in any order (\<open>dict_eq\<close>).
\<close>

datatype json =
    JNull
  | JBool bool
  | JInt int
  | JFloat rat
  | JStr string
  | JArr "json list"
  | JObj "(string \<times> json) list"

type_synonym pydict = "(string \<times> json) list"

definition dict_eq :: "pydict \<Rightarrow> pydict \<Rightarrow> bool" where
  "dict_eq a b \<longleftrightarrow> map_of a = map_of b"

text \<open>
  \<^verbatim>\<open>d[k] = v\<close>, and so \<^verbatim>\<open>{**d, k: v}\<close> on a copy: an existing key keeps its place
  and takes the new value, a new key goes to the end.
\<close>

fun dict_set :: "string \<Rightarrow> json \<Rightarrow> pydict \<Rightarrow> pydict" where
  "dict_set k v [] = [(k, v)]"
| "dict_set k v (p # ps) = (if fst p = k then (k, v) # ps else p # dict_set k v ps)"

text \<open>\<^verbatim>\<open>d.get(k, default)\<close>\<close>

definition dict_get :: "pydict \<Rightarrow> string \<Rightarrow> json \<Rightarrow> json" where
  "dict_get d k dflt = (case map_of d k of None \<Rightarrow> dflt | Some v \<Rightarrow> v)"

subsection \<open>Configuration\<close>

text \<open>The three module-level settings, read from the process environment at import.\<close>

record config =
  KRYV_SERVER :: string
  CLIENT_ID :: string
  PRIVACY_MODE :: bool

text \<open>
  Texts are lists of characters with the code points 0 to 255. On these
  \<^verbatim>\<open>str.lower()\<close> maps the letters A to Z and the capital letters U+00C0 to U+00DE
  (all but the multiplication sign U+00D7) to the letter 32 places on, and leaves
  every other character as it is.
\<close>

definition lower_char :: "char \<Rightarrow> char" where
  "lower_char c =
     (case map_of
        (zip (''ABCDEFGHIJKLMNOPQRSTUVWXYZ'' @
           [CHR 0xC0, CHR 0xC1, CHR 0xC2, CHR 0xC3, CHR 0xC4, CHR 0xC5, CHR 0xC6, CHR 0xC7,
            CHR 0xC8, CHR 0xC9, CHR 0xCA, CHR 0xCB, CHR 0xCC, CHR 0xCD, CHR 0xCE, CHR 0xCF,
            CHR 0xD0, CHR 0xD1, CHR 0xD2, CHR 0xD3, CHR 0xD4, CHR 0xD5, CHR 0xD6, CHR 0xD8,
            CHR 0xD9, CHR 0xDA, CHR 0xDB, CHR 0xDC, CHR 0xDD, CHR 0xDE])
          (''abcdefghijklmnopqrstuvwxyz'' @
           [CHR 0xE0, CHR 0xE1, CHR 0xE2, CHR 0xE3, CHR 0xE4, CHR 0xE5, CHR 0xE6, CHR 0xE7,
            CHR 0xE8, CHR 0xE9, CHR 0xEA, CHR 0xEB, CHR 0xEC, CHR 0xED, CHR 0xEE, CHR 0xEF,
            CHR 0xF0, CHR 0xF1, CHR 0xF2, CHR 0xF3, CHR 0xF4, CHR 0xF5, CHR 0xF6, CHR 0xF8,
            CHR 0xF9, CHR 0xFA, CHR 0xFB, CHR 0xFC, CHR 0xFD, CHR 0xFE])) c of
        None \<Rightarrow> c
      | Some l \<Rightarrow> l)"

definition lower :: "string \<Rightarrow> string" where
  "lower s = map lower_char s"

definition environ_get :: "(string \<rightharpoonup> string) \<Rightarrow> string \<Rightarrow> string \<Rightarrow> string" where
  "environ_get environ k dflt = (case environ k of None \<Rightarrow> dflt | Some v \<Rightarrow> v)"

definition load_config :: "(string \<rightharpoonup> string) \<Rightarrow> config" where
  "load_config environ =
     \<lparr>KRYV_SERVER = environ_get environ ''KRYV_SERVER'' ''https://mcp.kryv.network'',
      CLIENT_ID = environ_get environ ''KRYV_CLIENT_ID'' '''',
      PRIVACY_MODE = (lower (environ_get environ ''KRYV_PRIVACY'' ''false'') = ''true'')\<rparr>"

definition PUSH_URL :: "config \<Rightarrow> string" where
  "PUSH_URL cfg = KRYV_SERVER cfg @ ''/push''"

definition LOCAL_STORE :: string where
  "LOCAL_STORE = ''/tmp/kryv-context''"

subsection \<open>What the collectors read\<close>

text \<open>
  A path is the list of its components below the root. Times are POSIX timestamps in
  microseconds (the resolution of \<^verbatim>\<open>datetime\<close>); sizes are in bytes.
\<close>

type_synonym path = "string list"

definition path_str :: "path \<Rightarrow> string" where
  "path_str p = (if p = [] then ''/'' else concat (map (\<lambda>c. ''/'' @ c) p))"

fun join_slash :: "string list \<Rightarrow> string" where
  "join_slash [] = ''.''"
| "join_slash [c] = c"
| "join_slash (c # cs) = c @ ''/'' @ join_slash cs"

text \<open>\<^verbatim>\<open>str(f.relative_to(base))\<close>: raises ValueError when \<open>f\<close> is not below \<open>base\<close>.\<close>

definition relative_to :: "path \<Rightarrow> path \<Rightarrow> exn + string" where
  "relative_to f base =
     (if prefix base f then Inr (join_slash (drop (length base) f)) else Inl ValueError)"

definition path_name :: "path \<Rightarrow> string" where
  "path_name p = (if p = [] then [] else last p)"

text \<open>
  \<^verbatim>\<open>PurePath.suffix\<close>: the part of the name from its last dot, unless that dot is the
  first or the last character of the name.
\<close>

definition rfind_dot :: "string \<Rightarrow> nat option" where
  "rfind_dot s =
     (let k = length (takeWhile (\<lambda>c. c \<noteq> CHR ''.'') (rev s))
      in if k = length s then None else Some (length s - 1 - k))"

definition suffix_of :: "string \<Rightarrow> string" where
  "suffix_of nm =
     (case rfind_dot nm of
        None \<Rightarrow> []
      | Some i \<Rightarrow> if 0 < i \<and> i < length nm - 1 then drop i nm else [])"

record stat_result =
  st_mtime :: int      \<comment> \<open>microseconds since the epoch\<close>
  st_size :: nat

text \<open>
  One path \<open>d / e_rel\<close> yielded by \<^verbatim>\<open>d.rglob("*")\<close>, with what the calls on it answer.
\<close>

record entry =
  e_rel :: path                      \<comment> \<open>the components below the directory searched\<close>
  e_is_file :: "exn + bool"          \<comment> \<open>\<^verbatim>\<open>f.is_file()\<close>\<close>
  e_stat :: "exn + stat_result"      \<comment> \<open>\<^verbatim>\<open>f.stat()\<close>\<close>
  e_read_text :: "exn + string"      \<comment> \<open>\<^verbatim>\<open>f.read_text(encoding="utf-8", errors="ignore")\<close>\<close>

text \<open>A step of the iteration over \<^verbatim>\<open>d.rglob("*")\<close>: a path, or the iterator raises.\<close>

datatype item = Yields entry | IterRaises exn

text \<open>\<^verbatim>\<open>d.exists()\<close> and, for a directory that exists, its recursive listing.\<close>

datatype dir_state = Absent | Present "item list" | ExistsRaises exn

record sys_stats =
  cpu_percent :: rat
  memory_percent :: rat
  disk_percent :: rat

record proc_result =
  returncode :: int
  stdout :: string

text \<open>What the collectors read from the machine at one moment.\<close>

record machine =
  home :: path                                   \<comment> \<open>\<^verbatim>\<open>Path.home()\<close>\<close>
  time_time :: int                               \<comment> \<open>\<^verbatim>\<open>time.time()\<close>, in microseconds\<close>
  fromtimestamp :: "int \<Rightarrow> exn + datetime"      \<comment> \<open>local time of a timestamp\<close>
  dir_at :: "path \<Rightarrow> dir_state"
  psutil :: "exn + sys_stats"                    \<comment> \<open>\<^verbatim>\<open>import psutil\<close> and its three readings\<close>
  platform_system :: string
  platform_node :: string
  xclip :: "exn + proc_result"                   \<comment> \<open>\<^verbatim>\<open>subprocess.run(["xclip", ...])\<close>\<close>

subsection \<open>The world: files, trace, environment\<close>

text \<open>What the script prints, by message and arguments of the f-string.\<close>

datatype logmsg =
    LogPushed string pydict          \<comment> \<open>Pushed \<open>source\<close> (\<open>len(str(data))\<close> bytes)\<close>
  | LogPushFailed string nat         \<comment> \<open>Push failed for \<open>source\<close>: \<open>status\<close>\<close>
  | LogNetworkError exn              \<comment> \<open>Network error: \<open>e\<close>\<close>
  | LogStoredLocally string          \<comment> \<open>Stored locally: \<open>source\<close> (privacy mode)\<close>
  | LogServerOK json json            \<comment> \<open>Server OK, version, DB\<close>
  | LogServerReturned nat            \<comment> \<open>Server returned \<open>status\<close>\<close>
  | LogServerUnreachable exn         \<comment> \<open>Server unreachable: \<open>e\<close>\<close>
  | LogStartingFullSync
  | LogFullSyncComplete
  | LogAgentStarting
  | LogServer string
  | LogClientId string
  | LogPrivacyMode bool
  | LogWarnNoClientId
  | LogSchedulerRunning

datatype event =
    OpenWrite string                 \<comment> \<open>\<^verbatim>\<open>open(path, "w")\<close> is called\<close>
  | HttpPost string pydict nat       \<comment> \<open>\<^verbatim>\<open>requests.post(url, json=payload, timeout=t)\<close>\<close>
  | HttpGet string nat               \<comment> \<open>\<^verbatim>\<open>requests.get(url, timeout=t)\<close>\<close>
  | Log logmsg
  | Sleep nat

fun is_network :: "event \<Rightarrow> bool" where
  "is_network (HttpPost _ _ _) = True"
| "is_network (HttpGet _ _) = True"
| "is_network _ = False"

fun is_post :: "event \<Rightarrow> bool" where
  "is_post (HttpPost _ _ _) = True"
| "is_post _ = False"

fun is_get :: "event \<Rightarrow> bool" where
  "is_get (HttpGet _ _) = True"
| "is_get _ = False"

text \<open>
  A file of the scratch directory holds the JSON text of a dict, or, after a write
  that failed half way, a truncated text that does not parse.
\<close>

datatype file_content = JsonText pydict | Truncated

text \<open>Reading a file and parsing it (\<^verbatim>\<open>json.load\<close>).\<close>

definition read_json :: "(string \<rightharpoonup> file_content) \<Rightarrow> string \<Rightarrow> exn + pydict" where
  "read_json fs p =
     (case fs p of None \<Rightarrow> Inl FileNotFoundError
      | Some Truncated \<Rightarrow> Inl JSONDecodeError
      | Some (JsonText d) \<Rightarrow> Inr d)"

record world =
  files :: "string \<rightharpoonup> file_content"
  trace :: "event list"

definition emit :: "event \<Rightarrow> world \<Rightarrow> world" where
  "emit ev w = w\<lparr>trace := trace w @ [ev]\<rparr>"

definition log_msg :: "logmsg \<Rightarrow> world \<Rightarrow> world" where
  "log_msg m w = emit (Log m) w"

text \<open>The events a call added to the trace.\<close>

definition new_events :: "world \<Rightarrow> world \<Rightarrow> event list" where
  "new_events w w' = drop (length (trace w)) (trace w')"

text \<open>The files a run of events opens for writing, in order.\<close>

definition written_files :: "event list \<Rightarrow> string list" where
  "written_files evs = concat (map (\<lambda>ev. case ev of OpenWrite p \<Rightarrow> [p] | _ \<Rightarrow> []) evs)"

text \<open>
  How writing a file can end: it is written; \<^verbatim>\<open>open\<close> raises and the file is as
  before; or \<^verbatim>\<open>json.dump\<close> raises after \<^verbatim>\<open>open\<close> has emptied the file.
\<close>

datatype write_outcome = Written | OpenRaises exn | DumpRaises exn

text \<open>
  How a request can end: a response arrives (status code and body text, parsed or
  not parseable), or the call raises.
\<close>

record response =
  status_code :: nat
  body :: "json option"      \<comment> \<open>\<open>None\<close>: the body is not JSON\<close>

datatype http_outcome = Responds response | HttpRaises exn

text \<open>
  \<^verbatim>\<open>Response.ok\<close> of the requests library: false exactly when
  \<^verbatim>\<open>raise_for_status()\<close> raises, that is for status codes 400 to 599.
\<close>

definition ok :: "response \<Rightarrow> bool" where
  "ok res \<longleftrightarrow> \<not> (400 \<le> status_code res \<and> status_code res < 600)"

record env =
  write_outcome_at :: "nat \<Rightarrow> string \<Rightarrow> write_outcome"
  utcnow_at :: "nat \<Rightarrow> datetime"
  post_outcome_at :: "nat \<Rightarrow> string \<Rightarrow> http_outcome"
  get_outcome_at :: "nat \<Rightarrow> string \<Rightarrow> http_outcome"
  machine_at :: "nat \<Rightarrow> machine"

text \<open>The logical time of a world: the number of effects performed so far.\<close>

definition tick :: "world \<Rightarrow> nat" where
  "tick w = length (trace w)"

subsection \<open>Delivery: \<^verbatim>\<open>push_context\<close>\<close>

text \<open>
  \<^verbatim>\<open>with open(local_file, "w") as f: json.dump({**data, "updated_at": ...}, f)\<close>.
  The clock is read once the file is open.
\<close>

definition local_file :: "string \<Rightarrow> string" where
  "local_file source = LOCAL_STORE @ ''/'' @ source @ ''.json''"

definition store_local :: "env \<Rightarrow> string \<Rightarrow> pydict \<Rightarrow> world \<Rightarrow> (exn + unit) \<times> world" where
  "store_local e source data w =
     (let w1 = emit (OpenWrite (local_file source)) w
      in case write_outcome_at e (tick w) (local_file source) of
           OpenRaises x \<Rightarrow> (Inl x, w1)
         | DumpRaises x \<Rightarrow> (Inl x, w1\<lparr>files := (files w1)(local_file source \<mapsto> Truncated)\<rparr>)
         | Written \<Rightarrow>
             (Inr (),
              w1\<lparr>files := (files w1)(local_file source \<mapsto>
                   JsonText (dict_set ''updated_at'' (JStr (isoformat (utcnow_at e (tick w1)))) data))\<rparr>))"

definition push_context :: "config \<Rightarrow> env \<Rightarrow> string \<Rightarrow> pydict \<Rightarrow> world \<Rightarrow> (exn + unit) \<times> world" where
  "push_context cfg e source data w =
     (let payload = [(''client_id'', JStr (CLIENT_ID cfg)), (''source'', JStr source),
                     (''data'', JObj data)]
      in case store_local e source data w of
           (Inl x, w1) \<Rightarrow> (Inl x, w1)
         | (Inr _, w1) \<Rightarrow>
             if \<not> PRIVACY_MODE cfg \<and> CLIENT_ID cfg \<noteq> '''' then
               (let w2 = emit (HttpPost (PUSH_URL cfg) payload 10) w1
                in case post_outcome_at e (tick w1) (PUSH_URL cfg) of
                     Responds res \<Rightarrow>
                       if ok res then (Inr (), log_msg (LogPushed source data) w2)
                       else (Inr (), log_msg (LogPushFailed source (status_code res)) w2)
                   | HttpRaises x \<Rightarrow>
                       if is_RequestException x then (Inr (), log_msg (LogNetworkError x) w2)
                       else (Inl x, w2))
             else (Inr (), log_msg (LogStoredLocally source) w1))"

subsection \<open>Delivery: \<^verbatim>\<open>check_server\<close>\<close>

text \<open>
  Every member of \<open>exn\<close> is a subclass of \<^verbatim>\<open>Exception\<close>, so the handler
  \<^verbatim>\<open>except Exception\<close> takes each of them. \<^verbatim>\<open>res.json()\<close> raises on a body that is
  not JSON, and \<^verbatim>\<open>data.get\<close> raises AttributeError on JSON that is not an object.
\<close>

definition check_server :: "config \<Rightarrow> env \<Rightarrow> world \<Rightarrow> (exn + bool) \<times> world" where
  "check_server cfg e w =
     (let url = KRYV_SERVER cfg @ ''/health'';
          w1 = emit (HttpGet url 5) w
      in case get_outcome_at e (tick w) url of
           HttpRaises x \<Rightarrow> (Inr False, log_msg (LogServerUnreachable x) w1)
         | Responds res \<Rightarrow>
             if ok res then
               (case body res of
                  None \<Rightarrow> (Inr False, log_msg (LogServerUnreachable JSONDecodeError) w1)
                | Some (JObj data) \<Rightarrow>
                    (Inr True,
                     log_msg (LogServerOK (dict_get data ''version'' (JStr ''?''))
                                      (dict_get data ''db'' (JStr ''?''))) w1)
                | Some _ \<Rightarrow> (Inr False, log_msg (LogServerUnreachable AttributeError) w1))
             else (Inr False, log_msg (LogServerReturned (status_code res)) w1))"

subsection \<open>Collector: system stats\<close>

definition collect_system_info :: "machine \<Rightarrow> exn + pydict" where
  "collect_system_info m =
     (case psutil m of
        Inr s \<Rightarrow>
          Inr [(''cpu_percent'', JFloat (cpu_percent s)),
               (''memory_percent'', JFloat (memory_percent s)),
               (''disk_percent'', JFloat (disk_percent s)),
               (''platform'', JStr (platform_system m)),
               (''hostname'', JStr (platform_node m))]
      | Inl x \<Rightarrow>
          if is_ImportError x then
            Inr [(''platform'', JStr (platform_system m)),
                 (''hostname'', JStr (platform_node m)),
                 (''note'', JStr ''install psutil for full stats'')]
          else Inl x)"

subsection \<open>Collector: recent files\<close>

record file_rec =
  f_name :: string
  f_path :: string
  f_size_kb :: rat
  f_modified :: string
  f_type :: string

record files_result =
  recent_files :: "file_rec list"
  files_count :: nat
  watched_dirs :: "string list"

text \<open>
  \<^verbatim>\<open>round(n / d, 1)\<close> in tenths: Python rounds the exact quotient to the nearest
  tenth, a tie to the even one. \<open>st_size / 1024\<close> is exact in a float below \<open>2 ^ 53\<close>.
\<close>

definition round_half_even :: "nat \<Rightarrow> nat \<Rightarrow> nat" where
  "round_half_even n d =
     (let q = n div d; r = n mod d
      in if 2 * r < d then q else if d < 2 * r then q + 1 else if even q then q else q + 1)"

definition size_kb :: "nat \<Rightarrow> rat" where
  "size_kb sz = of_nat (round_half_even (sz * 10) 1024) / 10"

text \<open>The cutoff: \<^verbatim>\<open>time.time() - (24 * 60 * 60)\<close>, in microseconds.\<close>

definition cutoff_of :: "machine \<Rightarrow> int" where
  "cutoff_of m = time_time m - (24 * 60 * 60) * 1000000"

text \<open>
  The body of the inner loop for one path: \<open>Inr None\<close> when the path is passed over,
  \<open>Inr (Some r)\<close> when \<open>r\<close> is appended, \<open>Inl x\<close> when a call raises \<open>x\<close>.
\<close>

definition visit_file :: "machine \<Rightarrow> path \<Rightarrow> entry \<Rightarrow> exn + file_rec option" where
  "visit_file m d f =
     (case e_is_file f of
        Inl x \<Rightarrow> Inl x
      | Inr False \<Rightarrow> Inr None
      | Inr True \<Rightarrow>
          (case e_stat f of
             Inl x \<Rightarrow> Inl x
           | Inr st \<Rightarrow>
               if st_mtime st > cutoff_of m then
                 (case relative_to (d @ e_rel f) (home m) of
                    Inl x \<Rightarrow> Inl x
                  | Inr rel \<Rightarrow>
                      (case fromtimestamp m (st_mtime st) of
                         Inl x \<Rightarrow> Inl x
                       | Inr dt \<Rightarrow>
                           Inr (Some \<lparr>f_name = path_name (d @ e_rel f), f_path = rel,
                                      f_size_kb = size_kb (st_size st),
                                      f_modified = isoformat dt,
                                      f_type = lower (suffix_of (path_name (d @ e_rel f)))\<rparr>)))
               else Inr None))"

text \<open>
  The inner loop over one directory. It returns the list as it stands when the loop
  ends, and the exception that ended it, if one did.
\<close>

fun scan_files ::
  "machine \<Rightarrow> path \<Rightarrow> item list \<Rightarrow> file_rec list \<Rightarrow> exn option \<times> file_rec list" where
  "scan_files m d [] acc = (None, acc)"
| "scan_files m d (IterRaises x # its) acc = (Some x, acc)"
| "scan_files m d (Yields f # its) acc =
     (case visit_file m d f of
        Inl x \<Rightarrow> (Some x, acc)
      | Inr None \<Rightarrow> scan_files m d its acc
      | Inr (Some r) \<Rightarrow> scan_files m d its (acc @ [r]))"

text \<open>The outer loop: a missing directory and a PermissionError go on to the next one.\<close>

fun scan_dirs :: "machine \<Rightarrow> path list \<Rightarrow> file_rec list \<Rightarrow> exn + file_rec list" where
  "scan_dirs m [] acc = Inr acc"
| "scan_dirs m (d # ds) acc =
     (case dir_at m d of
        ExistsRaises x \<Rightarrow> Inl x
      | Absent \<Rightarrow> scan_dirs m ds acc
      | Present its \<Rightarrow>
          (case scan_files m d its acc of
             (None, acc') \<Rightarrow> scan_dirs m ds acc'
           | (Some x, acc') \<Rightarrow> if is_PermissionError x then scan_dirs m ds acc' else Inl x))"

text \<open>
  \<^verbatim>\<open>xs.sort(key=k, reverse=True)\<close>: descending, and stable (equal keys keep their
  order), which Python obtains by sorting the reversed list and reversing the result.
\<close>

definition sort_reverse :: "('a \<Rightarrow> 'k::linorder) \<Rightarrow> 'a list \<Rightarrow> 'a list" where
  "sort_reverse k xs = rev (sort_key k (rev xs))"

definition default_watch_dirs :: "machine \<Rightarrow> path list" where
  "default_watch_dirs m = [home m @ [''Documents''], home m @ [''Downloads''], home m @ [''Desktop'']]"

definition collect_local_files :: "machine \<Rightarrow> path list option \<Rightarrow> exn + files_result" where
  "collect_local_files m watch_dirs_arg =
     (let watch_dirs = (case watch_dirs_arg of None \<Rightarrow> default_watch_dirs m | Some ds \<Rightarrow> ds)
      in case scan_dirs m watch_dirs [] of
           Inl x \<Rightarrow> Inl x
         | Inr fs \<Rightarrow>
             Inr \<lparr>recent_files = take 50 (sort_reverse f_modified fs),
                  files_count = length fs,
                  watched_dirs = map path_str watch_dirs\<rparr>)"

subsection \<open>Collector: notes\<close>

text \<open>
  \<^verbatim>\<open>str.isspace\<close> on code points below 256: tab to carriage return, the four
  separators 28 to 31, space, next line (133) and no-break space (160).
\<close>

definition is_space :: "char \<Rightarrow> bool" where
  "is_space c =
     (let n = (of_char c :: nat)
      in (9 \<le> n \<and> n \<le> 13) \<or> (28 \<le> n \<and> n \<le> 32) \<or> n = 133 \<or> n = 160)"

text \<open>\<^verbatim>\<open>s.strip()\<close>\<close>

definition strip :: "string \<Rightarrow> string" where
  "strip s = rev (dropWhile is_space (rev (dropWhile is_space s)))"

text \<open>\<^verbatim>\<open>s.split()\<close>: the maximal runs of characters that are not whitespace.\<close>

fun split_ws :: "string \<Rightarrow> string \<Rightarrow> string list" where
  "split_ws cur [] = (if cur = [] then [] else [cur])"
| "split_ws cur (c # cs) =
     (if is_space c then (if cur = [] then split_ws [] cs else cur # split_ws [] cs)
      else split_ws (cur @ [c]) cs)"

definition split :: "string \<Rightarrow> string list" where
  "split s = split_ws [] s"

record note_rec =
  n_name :: string
  n_path :: string
  n_preview :: string
  n_word_count :: nat
  n_modified :: string

record notes_result =
  notes_list :: "note_rec list"
  notes_count :: nat

definition extensions :: "string set" where
  "extensions = {''.txt'', ''.md'', ''.markdown'', ''.text''}"

definition note_dirs :: "machine \<Rightarrow> path list" where
  "note_dirs m = [home m @ [''Notes''], home m @ [''Documents''], home m @ [''Desktop'']]"

text \<open>
  The \<^verbatim>\<open>try\<close> block for one matching file; any exception in it passes the file over.
\<close>

definition read_note :: "machine \<Rightarrow> path \<Rightarrow> entry \<Rightarrow> exn + note_rec" where
  "read_note m d f =
     (case e_read_text f of
        Inl x \<Rightarrow> Inl x
      | Inr content \<Rightarrow>
          (case relative_to (d @ e_rel f) (home m) of
             Inl x \<Rightarrow> Inl x
           | Inr rel \<Rightarrow>
               (case e_stat f of
                  Inl x \<Rightarrow> Inl x
                | Inr st \<Rightarrow>
                    (case fromtimestamp m (st_mtime st) of
                       Inl x \<Rightarrow> Inl x
                     | Inr dt \<Rightarrow>
                         Inr \<lparr>n_name = path_name (d @ e_rel f), n_path = rel,
                              n_preview = strip (take 200 content),
                              n_word_count = length (split content),
                              n_modified = isoformat dt\<rparr>))))"

text \<open>Whether the loop body reaches the \<^verbatim>\<open>try\<close> block for a path.\<close>

definition is_note_file :: "path \<Rightarrow> entry \<Rightarrow> exn + bool" where
  "is_note_file d f =
     (case e_is_file f of
        Inl x \<Rightarrow> Inl x
      | Inr b \<Rightarrow> Inr (b \<and> lower (suffix_of (path_name (d @ e_rel f))) \<in> extensions))"

fun scan_notes :: "machine \<Rightarrow> path \<Rightarrow> item list \<Rightarrow> note_rec list \<Rightarrow> exn + note_rec list" where
  "scan_notes m d [] acc = Inr acc"
| "scan_notes m d (IterRaises x # its) acc = Inl x"
| "scan_notes m d (Yields f # its) acc =
     (case is_note_file d f of
        Inl x \<Rightarrow> Inl x
      | Inr False \<Rightarrow> scan_notes m d its acc
      | Inr True \<Rightarrow>
          (case read_note m d f of
             Inl x \<Rightarrow> scan_notes m d its acc
           | Inr r \<Rightarrow> scan_notes m d its (acc @ [r])))"

fun scan_note_dirs :: "machine \<Rightarrow> path list \<Rightarrow> note_rec list \<Rightarrow> exn + note_rec list" where
  "scan_note_dirs m [] acc = Inr acc"
| "scan_note_dirs m (d # ds) acc =
     (case dir_at m d of
        ExistsRaises x \<Rightarrow> Inl x
      | Absent \<Rightarrow> scan_note_dirs m ds acc
      | Present its \<Rightarrow>
          (case scan_notes m d its acc of
             Inl x \<Rightarrow> Inl x
           | Inr acc' \<Rightarrow> scan_note_dirs m ds acc'))"

definition collect_notes :: "machine \<Rightarrow> exn + notes_result" where
  "collect_notes m =
     (case scan_note_dirs m (note_dirs m) [] of
        Inl x \<Rightarrow> Inl x
      | Inr ns \<Rightarrow>
          Inr \<lparr>notes_list = take 20 (sort_reverse n_modified ns), notes_count = length ns\<rparr>)"

subsection \<open>Collector: clipboard\<close>


subsection \<open>Scheduled jobs\<close>

text \<open>The collector results as the dicts the script builds.\<close>

definition file_rec_json :: "file_rec \<Rightarrow> json" where
  "file_rec_json r =
     JObj [(''name'', JStr (f_name r)), (''path'', JStr (f_path r)),
           (''size_kb'', JFloat (f_size_kb r)), (''modified'', JStr (f_modified r)),
           (''type'', JStr (f_type r))]"

definition files_result_json :: "files_result \<Rightarrow> pydict" where
  "files_result_json r =
     [(''recent_files'', JArr (map file_rec_json (recent_files r))),
      (''count'', JInt (int (files_count r))),
      (''watched_dirs'', JArr (map JStr (watched_dirs r)))]"

definition note_rec_json :: "note_rec \<Rightarrow> json" where
  "note_rec_json r =
     JObj [(''name'', JStr (n_name r)), (''path'', JStr (n_path r)),
           (''preview'', JStr (n_preview r)), (''word_count'', JInt (int (n_word_count r))),
           (''modified'', JStr (n_modified r))]"

definition notes_result_json :: "notes_result \<Rightarrow> pydict" where
  "notes_result_json r =
     [(''notes'', JArr (map note_rec_json (notes_list r))),
      (''count'', JInt (int (notes_count r)))]"

text \<open>\<^verbatim>\<open>push_context(source, collector())\<close>: the collector runs first and may raise.\<close>

definition collect_and_push ::
  "config \<Rightarrow> env \<Rightarrow> string \<Rightarrow> (machine \<Rightarrow> exn + pydict) \<Rightarrow> world \<Rightarrow> (exn + unit) \<times> world" where
  "collect_and_push cfg e source collector w =
     (case collector (machine_at e (tick w)) of
        Inl x \<Rightarrow> (Inl x, w)
      | Inr data \<Rightarrow> push_context cfg e source data w)"

definition job_full_sync :: "config \<Rightarrow> env \<Rightarrow> world \<Rightarrow> (exn + unit) \<times> world" where
  "job_full_sync cfg e w =
     (case collect_and_push cfg e ''system_info'' collect_system_info
             (log_msg LogStartingFullSync w) of
        (Inl x, w1) \<Rightarrow> (Inl x, w1)
      | (Inr _, w1) \<Rightarrow>
          (case collect_and_push cfg e ''local_files''
                  (\<lambda>m. map_sum id files_result_json (collect_local_files m None)) w1 of
             (Inl x, w2) \<Rightarrow> (Inl x, w2)
           | (Inr _, w2) \<Rightarrow>
               (case collect_and_push cfg e ''local_notes''
                       (\<lambda>m. map_sum id notes_result_json (collect_notes m)) w2 of
                  (Inl x, w3) \<Rightarrow> (Inl x, w3)
                | (Inr _, w3) \<Rightarrow> (Inr (), log_msg LogFullSyncComplete w3))))"

definition job_quick_sync :: "config \<Rightarrow> env \<Rightarrow> world \<Rightarrow> (exn + unit) \<times> world" where
  "job_quick_sync cfg e w = collect_and_push cfg e ''system_info'' collect_system_info w"

subsection \<open>The scheduler\<close>

text \<open>
  The \<^verbatim>\<open>schedule\<close> library as the script uses it. \<^verbatim>\<open>every(n).minutes.do(f)\<close>
  appends a job that is due \<open>n\<close> minutes from now. \<^verbatim>\<open>run_pending()\<close> runs the jobs
  that are due, earliest first, and after each run sets the job's next run one
  interval later; it removes a job only when its function returns the library's
  \<^verbatim>\<open>CancelJob\<close>, which none of the three functions does (they return \<^verbatim>\<open>None\<close> or a
  \<^verbatim>\<open>bool\<close>). An exception of a job leaves \<^verbatim>\<open>run_pending\<close>.
\<close>

datatype job_func = JobQuickSync | JobFullSync | CheckServer

record job =
  interval :: nat              \<comment> \<open>in minutes\<close>
  job_func :: job_func
  last_run :: "int option"
  next_run :: int              \<comment> \<open>microseconds since the epoch\<close>

definition minutes :: "nat \<Rightarrow> int" where
  "minutes n = int n * 60 * 1000000"

definition now :: "env \<Rightarrow> world \<Rightarrow> int" where
  "now e w = time_time (machine_at e (tick w))"

definition every_minutes_do :: "env \<Rightarrow> world \<Rightarrow> nat \<Rightarrow> job_func \<Rightarrow> job list \<Rightarrow> job list" where
  "every_minutes_do e w n f jobs =
     jobs @ [\<lparr>interval = n, job_func = f, last_run = None, next_run = now e w + minutes n\<rparr>]"

definition run_job_func :: "config \<Rightarrow> env \<Rightarrow> job_func \<Rightarrow> world \<Rightarrow> (exn + unit) \<times> world" where
  "run_job_func cfg e f w =
     (case f of
        JobQuickSync \<Rightarrow> job_quick_sync cfg e w
      | JobFullSync \<Rightarrow> job_full_sync cfg e w
      | CheckServer \<Rightarrow> (case check_server cfg e w of (r, w') \<Rightarrow> (map_sum id (\<lambda>_. ()) r, w')))"



subsection \<open>\<^verbatim>\<open>main\<close>\<close>

text \<open>Everything \<^verbatim>\<open>main\<close> does before its loop.\<close>

definition main_startup :: "config \<Rightarrow> env \<Rightarrow> world \<Rightarrow> (exn + job list) \<times> world" where
  "main_startup cfg e w =
     (let w1 = log_msg LogAgentStarting w;
          w2 = log_msg (LogServer (KRYV_SERVER cfg)) w1;
          w3 = log_msg (LogClientId (CLIENT_ID cfg)) w2;
          w4 = log_msg (LogPrivacyMode (PRIVACY_MODE cfg)) w3;
          w5 = (if CLIENT_ID cfg = '''' then log_msg LogWarnNoClientId w4 else w4)
      in case check_server cfg e w5 of
           (Inl x, w6) \<Rightarrow> (Inl x, w6)
         | (Inr _, w6) \<Rightarrow>
             (case job_full_sync cfg e w6 of
                (Inl x, w7) \<Rightarrow> (Inl x, w7)
              | (Inr _, w7) \<Rightarrow>
                  (let j1 = every_minutes_do e w7 1 JobQuickSync [];
                       j2 = every_minutes_do e w7 5 JobFullSync j1;
                       j3 = every_minutes_do e w7 30 CheckServer j2
                   in (Inr j3, log_msg LogSchedulerRunning w7))))"



text \<open>What is registered: the function and the interval of each job, in order.\<close>

definition registered :: "job list \<Rightarrow> (job_func \<times> nat) list" where
  "registered jobs = map (\<lambda>j. (job_func j, interval j)) jobs"


subsection \<open>Concrete inputs\<close>

text \<open>Small concrete configurations, machines and environments on which the model is run.\<close>

definition example_datetime :: datetime where
  "example_datetime =
     \<lparr>year = 2024, month = 3, day = 9, hour = 7, minute = 5, second = 0, microsecond = 120\<rparr>"

definition example_machine :: machine where
  "example_machine =
     \<lparr>home = [''home'', ''ubuntu''], time_time = 1710000000000000,
      fromtimestamp = (\<lambda>t. Inl OverflowError), dir_at = (\<lambda>d. Absent),
      psutil = Inl ImportError, platform_system = ''Linux'', platform_node = ''vm1'',
      xclip = Inl FileNotFoundError\<rparr>"

definition example_env :: "write_outcome \<Rightarrow> http_outcome \<Rightarrow> env" where
  "example_env wo ho =
     \<lparr>write_outcome_at = (\<lambda>n p. wo), utcnow_at = (\<lambda>n. example_datetime),
      post_outcome_at = (\<lambda>n u. ho), get_outcome_at = (\<lambda>n u. ho),
      machine_at = (\<lambda>n. example_machine)\<rparr>"

definition example_config :: "bool \<Rightarrow> config" where
  "example_config privacy =
     \<lparr>KRYV_SERVER = ''https://mcp.kryv.network'', CLIENT_ID = ''vm-1'', PRIVACY_MODE = privacy\<rparr>"

definition example_world :: world where
  "example_world = \<lparr>files = Map.empty, trace = []\<rparr>"

definition example_data :: pydict where
  "example_data = [(''platform'', JStr ''Linux''), (''hostname'', JStr ''vm1'')]"

definition http_status :: "nat \<Rightarrow> http_outcome" where
  "http_status n = Responds \<lparr>status_code = n, body = None\<rparr>"

text \<open>
  A watched folder with three files modified one, two and three hours ago, a file
  modified 25 hours ago and a subdirectory; and a folder with two files modified at
  the same moment.
\<close>

definition file_entry :: "string \<Rightarrow> int \<Rightarrow> nat \<Rightarrow> string \<Rightarrow> item" where
  "file_entry nm mtime sz content =
     Yields \<lparr>e_rel = [nm], e_is_file = Inr True,
             e_stat = Inr \<lparr>st_mtime = mtime, st_size = sz\<rparr>, e_read_text = Inr content\<rparr>"

definition watch_listing :: "item list" where
  "watch_listing =
     [file_entry ''c'' 1709989200500000 100 ''three'',
      file_entry ''a.txt'' 1709996400000000 2048 ''one'',
      Yields \<lparr>e_rel = [''sub''], e_is_file = Inr False, e_stat = Inl OSError,
              e_read_text = Inl OSError\<rparr>,
      file_entry ''old.log'' 1709910000000000 4096 ''stale'',
      file_entry ''b.PDF'' 1709992800000000 1536 ''two'']"

definition tie_listing :: "item list" where
  "tie_listing =
     [file_entry ''x.txt'' 1709996400000000 10 ''x'',
      file_entry ''y.txt'' 1709996400000000 20 ''y'']"

definition example_localtime :: "int \<Rightarrow> exn + datetime" where
  "example_localtime t =
     (if t = 1709996400000000 then
        Inr \<lparr>year = 2024, month = 3, day = 9, hour = 15, minute = 0, second = 0, microsecond = 0\<rparr>
      else if t = 1709992800000000 then
        Inr \<lparr>year = 2024, month = 3, day = 9, hour = 14, minute = 0, second = 0, microsecond = 0\<rparr>
      else if t = 1709989200500000 then
        Inr \<lparr>year = 2024, month = 3, day = 9, hour = 13, minute = 0, second = 0,
             microsecond = 500000\<rparr>
      else Inl OverflowError)"

definition example_files_machine :: "path \<Rightarrow> item list \<Rightarrow> machine" where
  "example_files_machine d its =
     \<lparr>home = [''home'', ''ubuntu''], time_time = 1710000000000000,
      fromtimestamp = example_localtime,
      dir_at = (\<lambda>p. if p = d then Present its else Absent),
      psutil = Inl ImportError, platform_system = ''Linux'', platform_node = ''vm1'',
      xclip = Inl FileNotFoundError\<rparr>"

text \<open>
  Listings on which a call goes wrong: a file that is gone when \<^verbatim>\<open>stat\<close> is called, a
  file whose modification time lies beyond the dates \<^verbatim>\<open>datetime\<close> has, and a path that
  may not be looked at, followed by a recent file.
\<close>

definition vanished_listing :: "item list" where
  "vanished_listing =
     [file_entry ''a.txt'' 1709996400000000 2048 ''one'',
      Yields \<lparr>e_rel = [''gone.tmp''], e_is_file = Inr True, e_stat = Inl FileNotFoundError,
              e_read_text = Inl FileNotFoundError\<rparr>]"

definition future_listing :: "item list" where
  "future_listing = [file_entry ''future.txt'' 999999999999000000000 10 ''later'']"

definition locked_listing :: "item list" where
  "locked_listing =
     [Yields \<lparr>e_rel = [''locked''], e_is_file = Inl PermissionError, e_stat = Inl PermissionError,
              e_read_text = Inl PermissionError\<rparr>,
      file_entry ''a.txt'' 1709996400000000 2048 ''one'']"

text \<open>
  A machine in a time zone that leaves daylight saving time at 01:00 UTC on 27 October
  2024: the second before is 02:59:59 local time, the moment itself 02:00:00. The one
  folder it has holds a file modified at each of the two.
\<close>

definition dst_localtime :: "int \<Rightarrow> exn + datetime" where
  "dst_localtime t =
     (if t = 1729990799000000 then
        Inr \<lparr>year = 2024, month = 10, day = 27, hour = 2, minute = 59, second = 59,
             microsecond = 0\<rparr>
      else if t = 1729990800000000 then
        Inr \<lparr>year = 2024, month = 10, day = 27, hour = 2, minute = 0, second = 0,
             microsecond = 0\<rparr>
      else Inl OverflowError)"

definition dst_listing :: "item list" where
  "dst_listing =
     [file_entry ''late.txt'' 1729990800000000 10 ''after'',
      file_entry ''early.txt'' 1729990799000000 10 ''before'']"

definition dst_machine :: "path \<Rightarrow> machine" where
  "dst_machine d =
     \<lparr>home = [''home'', ''ubuntu''], time_time = 1729994400000000,
      fromtimestamp = dst_localtime,
      dir_at = (\<lambda>p. if p = d then Present dst_listing else Absent),
      psutil = Inl ImportError, platform_system = ''Linux'', platform_node = ''vm1'',
      xclip = Inl FileNotFoundError\<rparr>"

text \<open>
  A notes folder with three note files, a picture and a subdirectory; and one with a
  note file that may not be read, a note file whose modification time lies beyond the
  dates \<^verbatim>\<open>datetime\<close> has, and a note file that is in order.
\<close>

definition notes_listing :: "item list" where
  "notes_listing =
     [file_entry ''todo.md'' 1709992800000000 22 ''  buy milk  and eggs '',
      file_entry ''pic.png'' 1709996400000000 999 ''binary'',
      Yields \<lparr>e_rel = [''sub''], e_is_file = Inr False, e_stat = Inl OSError,
              e_read_text = Inl OSError\<rparr>,
      file_entry ''Ideas.TXT'' 1709996400000000 5 ''ideas'',
      file_entry ''old.text'' 1709989200500000 0 '''']"

definition unread_listing :: "item list" where
  "unread_listing =
     [Yields \<lparr>e_rel = [''secret.txt''], e_is_file = Inr True,
              e_stat = Inr \<lparr>st_mtime = 1709996400000000, st_size = 5\<rparr>,
              e_read_text = Inl PermissionError\<rparr>,
      file_entry ''future.md'' 999999999999000000000 5 ''later'',
      file_entry ''todo.md'' 1709992800000000 8 ''buy milk'']"

subsection \<open>What the recent-files collector is expected to return\<close>

text \<open>
  The notions of the specification, stated on a listing: the paths it yields, which of
  them are files modified within the last 24 hours, and the record of such a file
  (name, home-relative path, size in KB to one decimal, ISO-8601 local modification
  time, lowercased extension).
\<close>

fun entries :: "item list \<Rightarrow> entry list" where
  "entries [] = []"
| "entries (Yields f # its) = f # entries its"
| "entries (IterRaises x # its) = entries its"

definition is_recent :: "machine \<Rightarrow> entry \<Rightarrow> bool" where
  "is_recent m f \<longleftrightarrow>
     e_is_file f = Inr True \<and>
     (case e_stat f of Inl x \<Rightarrow> False | Inr st \<Rightarrow> time_time m - 86400 * 1000000 < st_mtime st)"

definition file_record :: "machine \<Rightarrow> path \<Rightarrow> entry \<Rightarrow> (int \<times> file_rec) option" where
  "file_record m d f =
     (case e_stat f of
        Inl x \<Rightarrow> None
      | Inr st \<Rightarrow>
          (case fromtimestamp m (st_mtime st) of
             Inl x \<Rightarrow> None
           | Inr dt \<Rightarrow>
               Some (st_mtime st,
                     \<lparr>f_name = path_name (d @ e_rel f),
                      f_path = join_slash (drop (length (home m)) (d @ e_rel f)),
                      f_size_kb = size_kb (st_size st),
                      f_modified = isoformat dt,
                      f_type = lower (suffix_of (path_name (d @ e_rel f)))\<rparr>)))"

text \<open>
  The recent files below the watched directories that exist, in the order of the scan,
  each as its modification time together with its record.
\<close>

definition found_in :: "machine \<Rightarrow> path \<Rightarrow> (int \<times> file_rec) list" where
  "found_in m d =
     (case dir_at m d of
        Present its \<Rightarrow>
          List.map_filter (\<lambda>f. if is_recent m f then file_record m d f else None) (entries its)
      | _ \<Rightarrow> [])"

definition found :: "machine \<Rightarrow> path list \<Rightarrow> (int \<times> file_rec) list" where
  "found m ds = concat (map (found_in m) ds)"

text \<open>How many recent files the watched directories hold.\<close>

definition recent_total :: "machine \<Rightarrow> path list \<Rightarrow> nat" where
  "recent_total m ds =
     sum_list (map (\<lambda>d. case dir_at m d of
                            Present its \<Rightarrow> length (filter (is_recent m) (entries its))
                          | _ \<Rightarrow> 0) ds)"

text \<open>
  A directory below the home directory whose listing can be walked: the iterator does
  not raise, \<^verbatim>\<open>is_file\<close> and \<^verbatim>\<open>stat\<close> answer, and the modification time of a recent
  file has a local time.
\<close>

definition walkable_item :: "machine \<Rightarrow> item \<Rightarrow> bool" where
  "walkable_item m it =
     (case it of
        IterRaises x \<Rightarrow> False
      | Yields f \<Rightarrow>
          (case e_is_file f of
             Inl x \<Rightarrow> False
           | Inr False \<Rightarrow> True
           | Inr True \<Rightarrow>
               (case e_stat f of
                  Inl x \<Rightarrow> False
                | Inr st \<Rightarrow>
                    time_time m - 86400 * 1000000 < st_mtime st \<longrightarrow>
                    (case fromtimestamp m (st_mtime st) of
                       Inl x \<Rightarrow> False
                     | Inr dt \<Rightarrow> valid_datetime dt))))"

definition walkable :: "machine \<Rightarrow> path \<Rightarrow> bool" where
  "walkable m d =
     (case dir_at m d of
        Absent \<Rightarrow> True
      | ExistsRaises x \<Rightarrow> False
      | Present its \<Rightarrow> prefix (home m) d \<and> list_all (walkable_item m) its)"

text \<open>
  Local time keeps the order of the timestamps in a list: of two of them the earlier
  one has the earlier local time. (It fails where the clock is set back, as at the end
  of daylight saving time.)
\<close>

definition local_time_increasing :: "machine \<Rightarrow> int list \<Rightarrow> bool" where
  "local_time_increasing m ts =
     list_all (\<lambda>t1. list_all (\<lambda>t2. t1 < t2 \<longrightarrow>
        (case (fromtimestamp m t1, fromtimestamp m t2) of
           (Inr a, Inr b) \<Rightarrow> dt_less a b
         | _ \<Rightarrow> False)) ts) ts"

text \<open>The date an ISO text stands for is no later than the date of another.\<close>

definition iso_le :: "string \<Rightarrow> string \<Rightarrow> bool" where
  "iso_le s t =
     (case (fromisoformat s, fromisoformat t) of
        (Some a, Some b) \<Rightarrow> dt_le a b
      | _ \<Rightarrow> False)"

subsection \<open>What the notes collector is expected to return\<close>

text \<open>
  A note file is a file whose lowercased extension is one of the four. Its record
  needs the content, the file's status and the local date of its modification; it is
  kept here with the modification time and the content it was made from.
\<close>

definition is_note :: "path \<Rightarrow> entry \<Rightarrow> bool" where
  "is_note d f \<longleftrightarrow>
     e_is_file f = Inr True \<and>
     lower (suffix_of (path_name (d @ e_rel f))) \<in> {''.txt'', ''.md'', ''.markdown'', ''.text''}"

definition note_record :: "machine \<Rightarrow> path \<Rightarrow> entry \<Rightarrow> (int \<times> string \<times> note_rec) option" where
  "note_record m d f =
     (case e_read_text f of
        Inl x \<Rightarrow> None
      | Inr content \<Rightarrow>
          (case e_stat f of
             Inl x \<Rightarrow> None
           | Inr st \<Rightarrow>
               (case fromtimestamp m (st_mtime st) of
                  Inl x \<Rightarrow> None
                | Inr dt \<Rightarrow>
                    Some (st_mtime st, content,
                          \<lparr>n_name = path_name (d @ e_rel f),
                           n_path = join_slash (drop (length (home m)) (d @ e_rel f)),
                           n_preview = strip (take 200 content),
                           n_word_count = length (split content),
                           n_modified = isoformat dt\<rparr>))))"

definition notes_in :: "machine \<Rightarrow> path \<Rightarrow> (int \<times> string \<times> note_rec) list" where
  "notes_in m d =
     (case dir_at m d of
        Present its \<Rightarrow>
          List.map_filter (\<lambda>f. if is_note d f then note_record m d f else None) (entries its)
      | _ \<Rightarrow> [])"

text \<open>The note files that have a record, in the order of the scan.\<close>

definition notes_found :: "machine \<Rightarrow> (int \<times> string \<times> note_rec) list" where
  "notes_found m = concat (map (notes_in m) (note_dirs m))"

text \<open>How many note files the note directories hold, readable or not.\<close>

definition notes_total :: "machine \<Rightarrow> nat" where
  "notes_total m =
     sum_list (map (\<lambda>d. case dir_at m d of
                            Present its \<Rightarrow> length (filter (is_note d) (entries its))
                          | _ \<Rightarrow> 0) (note_dirs m))"

text \<open>Every note file of the note directories has a record.\<close>

definition all_notes_recorded :: "machine \<Rightarrow> bool" where
  "all_notes_recorded m =
     list_all (\<lambda>d. case dir_at m d of
                      Present its \<Rightarrow>
                        list_all (\<lambda>f. is_note d f \<longrightarrow> note_record m d f \<noteq> None) (entries its)
                    | _ \<Rightarrow> True) (note_dirs m)"

text \<open>
  A directory whose listing can be gone through: the iterator does not raise and
  \<^verbatim>\<open>is_file\<close> answers for every path; and a local date, where a modification time has
  one, is a date of the calendar.
\<close>

definition listable_item :: "machine \<Rightarrow> item \<Rightarrow> bool" where
  "listable_item m it =
     (case it of
        IterRaises x \<Rightarrow> False
      | Yields f \<Rightarrow>
          (case e_is_file f of
             Inl x \<Rightarrow> False
           | Inr b \<Rightarrow>
               (case e_stat f of
                  Inl x \<Rightarrow> True
                | Inr st \<Rightarrow>
                    (case fromtimestamp m (st_mtime st) of
                       Inl x \<Rightarrow> True
                     | Inr dt \<Rightarrow> valid_datetime dt))))"

definition listable :: "machine \<Rightarrow> path \<Rightarrow> bool" where
  "listable m d =
     (case dir_at m d of
        Absent \<Rightarrow> True
      | ExistsRaises x \<Rightarrow> False
      | Present its \<Rightarrow> list_all (listable_item m) its)"

text \<open>
  The number of whitespace-separated words of a text: the number of places where a
  character that is not whitespace stands at the start or after whitespace.
\<close>

fun word_starts :: "bool \<Rightarrow> string \<Rightarrow> nat" where
  "word_starts after_space [] = 0"
| "word_starts after_space (c # cs) =
     (if \<not> is_space c \<and> after_space then 1 else 0) + word_starts (is_space c) cs"

text \<open>
  A text trimmed of leading and trailing whitespace: what is left of it between a run
  of whitespace at its start and one at its end, and neither begins nor ends with
  whitespace.
\<close>

definition trimmed_of :: "string \<Rightarrow> string \<Rightarrow> bool" where
  "trimmed_of t s \<longleftrightarrow>
     (\<exists>l \<in> set (prefixes s). \<exists>r \<in> set (suffixes s).
        s = l @ t @ r \<and> list_all is_space l \<and> list_all is_space r) \<and>
     (t = [] \<or> \<not> is_space (hd t) \<and> \<not> is_space (last t))"


section \<open>Properties\<close>

subsection \<open>Evaluation and bookkeeping lemmas\<close>

lemma zpad_numeral:
  "zpad (numeral k) n = zpad (pred_numeral k) (n div 10) @ [digit_char (n mod 10)]"
  by (simp only: numeral_eq_Suc [of k] zpad.simps)

lemma zpad_one: "zpad 1 n = [digit_char (n mod 10)]"
  using zpad.simps(2) [of 0 n] by simp

lemmas iso_eval = isoformat_def zpad_numeral zpad_one digit_char_def

lemma trace_emit: "trace (emit ev w) = trace w @ [ev]"
  by (simp add: emit_def)

lemma files_emit: "files (emit ev w) = files w"
  by (simp add: emit_def)

lemma tick_emit: "tick (emit ev w) = Suc (tick w)"
  by (simp add: tick_def emit_def)

lemma trace_log_msg: "trace (log_msg m w) = trace w @ [Log m]"
  by (simp add: log_msg_def trace_emit)

lemma files_log_msg: "files (log_msg m w) = files w"
  by (simp add: log_msg_def files_emit)

lemma tick_log_msg: "tick (log_msg m w) = Suc (tick w)"
  by (simp add: log_msg_def tick_emit)

lemma tick_files_update: "tick (w\<lparr>files := f\<rparr>) = tick w"
  by (simp add: tick_def)

lemmas push_defs = push_context_def store_local_def new_events_def Let_def trace_emit
  trace_log_msg files_emit files_log_msg tick_emit tick_files_update

lemmas example_defs = example_env_def example_config_def example_world_def example_data_def
  example_datetime_def http_status_def tick_def

subsection \<open>ISO-8601 text of a date: reading it back\<close>

lemma digit_val_digit_char: "d < 10 \<Longrightarrow> digit_val (digit_char d) = Some d"
proof -
  assume "d < 10"
  then consider "d = 0" | "d = 1" | "d = 2" | "d = 3" | "d = 4" | "d = 5" | "d = 6"
    | "d = 7" | "d = 8" | "d = 9"
    by atomize_elim arith
  then show ?thesis
    by cases (simp_all add: digit_val_def digit_char_def)
qed

lemma length_zpad: "length (zpad w n) = w"
  by (induction w arbitrary: n) auto

lemma read_nat_append:
  "read_nat acc (xs @ ys) = Option.bind (read_nat acc xs) (\<lambda>a. read_nat a ys)"
  by (induction xs arbitrary: acc) (auto split: option.splits)

lemma read_nat_zpad: "n < 10 ^ w \<Longrightarrow> read_nat acc (zpad w n) = Some (acc * 10 ^ w + n)"
proof (induction w arbitrary: n acc)
  case 0
  then show ?case by simp
next
  case (Suc w)
  from Suc.prems have small: "n div 10 < 10 ^ w"
    by (simp add: less_mult_imp_div_less mult.commute)
  have "read_nat acc (zpad (Suc w) n) =
        read_nat (acc * 10 ^ w + n div 10) [digit_char (n mod 10)]"
    by (simp add: read_nat_append Suc.IH [OF small])
  also have "\<dots> = Some (10 * (acc * 10 ^ w + n div 10) + n mod 10)"
    by (simp add: digit_val_digit_char)
  also have "10 * (acc * 10 ^ w + n div 10) + n mod 10 = acc * 10 ^ Suc w + n"
    by (simp add: algebra_simps)
  finally show ?case .
qed

lemma take_digits_zpad: "n < 10 ^ w \<Longrightarrow> take_digits w (zpad w n @ rest) = Some (n, rest)"
  by (simp add: take_digits_def length_zpad read_nat_zpad)

lemma take_digits_zpad_end: "n < 10 ^ w \<Longrightarrow> take_digits w (zpad w n) = Some (n, [])"
  using take_digits_zpad [of n w "[]"] by simp

lemma expect_Cons: "expect c (c # rest) = Some rest"
  by (simp add: expect_def)

lemma parse_date_isoformat:
  assumes "y < 10 ^ 4" "mo < 10 ^ 2" "d < 10 ^ 2"
  shows "parse_date (zpad 4 y @ CHR ''-'' # zpad 2 mo @ CHR ''-'' # zpad 2 d @ rest) =
         Some ((y, mo, d), rest)"
  using assms by (simp add: parse_date_def take_digits_zpad expect_Cons)

lemma parse_time_isoformat:
  assumes "h < 10 ^ 2" "mi < 10 ^ 2" "s < 10 ^ 2"
  shows "parse_time (zpad 2 h @ CHR '':'' # zpad 2 mi @ CHR '':'' # zpad 2 s @ rest) =
         Some ((h, mi, s), rest)"
  using assms by (simp add: parse_time_def take_digits_zpad expect_Cons)

lemma parse_fraction_Nil: "parse_fraction [] = Some 0"
  by (simp add: parse_fraction_def)

lemma parse_fraction_isoformat:
  assumes "us < 10 ^ 6"
  shows "parse_fraction (CHR ''.'' # zpad 6 us) = Some us"
  using assms by (simp add: parse_fraction_def take_digits_zpad_end expect_Cons)

lemma fromisoformat_isoformat:
  assumes "valid_datetime d"
  shows "fromisoformat (isoformat d) = Some d"
proof -
  from assms have b: "year d < 10 ^ 4" "month d < 10 ^ 2" "day d < 10 ^ 2" "hour d < 10 ^ 2"
    "minute d < 10 ^ 2" "second d < 10 ^ 2" "microsecond d < 10 ^ 6"
    by (simp_all add: valid_datetime_def)
  have "fromisoformat (isoformat d) =
        (let r = \<lparr>year = year d, month = month d, day = day d, hour = hour d,
                  minute = minute d, second = second d, microsecond = microsecond d\<rparr>
         in if valid_datetime r then Some r else None)"
    unfolding fromisoformat_def isoformat_def
    by (simp add: parse_date_isoformat [OF b(1-3)] parse_time_isoformat [OF b(4-6)]
        parse_fraction_isoformat [OF b(7)] parse_fraction_Nil expect_Cons del: power_Suc)
  also have "\<dots> = Some d"
  proof -
    have "\<lparr>year = year d, month = month d, day = day d, hour = hour d,
           minute = minute d, second = second d, microsecond = microsecond d\<rparr> = d"
      by (cases d) simp
    with assms show ?thesis by (simp add: Let_def valid_datetime_def)
  qed
  finally show ?thesis .
qed

subsection \<open>ISO-8601 text of a date: its order is the order of dates\<close>

lemma lex_append_less:
  "length xs = length ys \<Longrightarrow> xs < ys \<Longrightarrow> xs @ us < ys @ (vs :: 'a::linorder list)"
  by (induction xs ys rule: list_induct2) auto

lemma lex_append_same: "xs @ us < xs @ vs \<longleftrightarrow> us < (vs :: 'a::linorder list)"
  by (induction xs) auto

lemma of_char_digit_char: "d < 10 \<Longrightarrow> of_char (digit_char d) = 48 + d"
proof -
  assume "d < 10"
  then consider "d = 0" | "d = 1" | "d = 2" | "d = 3" | "d = 4" | "d = 5" | "d = 6"
    | "d = 7" | "d = 8" | "d = 9"
    by atomize_elim arith
  then show ?thesis
    by cases (simp_all add: digit_char_def)
qed

lemma digit_char_less: "a < b \<Longrightarrow> b < 10 \<Longrightarrow> digit_char a < digit_char b"
  by (simp add: less_char_def of_char_digit_char)

lemma divmod_less_cases:
  fixes a b :: nat
  assumes "a < b"
  shows "a div 10 < b div 10 \<or> a div 10 = b div 10 \<and> a mod 10 < b mod 10"
proof (cases "a div 10 < b div 10")
  case True
  then show ?thesis by simp
next
  case False
  moreover from assms have "a div 10 \<le> b div 10"
    by (simp add: div_le_mono)
  ultimately have eq: "a div 10 = b div 10"
    by simp
  have "a = 10 * (a div 10) + a mod 10" "b = 10 * (b div 10) + b mod 10"
    by simp_all
  with assms eq have "a mod 10 < b mod 10"
    by linarith
  with eq show ?thesis by simp
qed

lemma zpad_less: "a < b \<Longrightarrow> b < 10 ^ w \<Longrightarrow> zpad w a < zpad w b"
proof (induction w arbitrary: a b)
  case 0
  then show ?case by simp
next
  case (Suc w)
  from Suc.prems have small: "b div 10 < 10 ^ w"
    by (simp add: less_mult_imp_div_less mult.commute)
  from divmod_less_cases [OF Suc.prems(1)]
  consider "a div 10 < b div 10" | "a div 10 = b div 10" "a mod 10 < b mod 10"
    by blast
  then show ?case
  proof cases
    case 1
    then have "zpad w (a div 10) < zpad w (b div 10)"
      using small by (rule Suc.IH)
    then show ?thesis
      by (simp add: lex_append_less length_zpad)
  next
    case 2
    then show ?thesis
      by (simp add: lex_append_same digit_char_less)
  qed
qed

lemma field_less:
  assumes "a < b \<or> a = b \<and> r < s" and "b < 10 ^ w"
  shows "zpad w a @ r < zpad w b @ s"
proof (cases "a < b")
  case True
  then have "zpad w a < zpad w b"
    using assms(2) by (rule zpad_less)
  then show ?thesis
    by (simp add: lex_append_less length_zpad)
next
  case False
  with assms(1) have "a = b" "r < s"
    by simp_all
  then show ?thesis
    by (simp add: lex_append_same)
qed

lemma fraction_less:
  assumes "a < b" and "b < 10 ^ 6"
  shows "(if a = 0 then [] else CHR ''.'' # zpad 6 a) < (if b = 0 then [] else CHR ''.'' # zpad 6 b)"
proof (cases "a = 0")
  case True
  with assms(1) show ?thesis by simp
next
  case False
  from assms have "zpad 6 a < zpad 6 b"
    by (rule zpad_less)
  with False assms(1) show ?thesis by simp
qed

lemma isoformat_less:
  assumes "dt_less a b" and "valid_datetime b"
  shows "isoformat a < isoformat b"
proof -
  from assms(2) have b: "year b < 10 ^ 4" "month b < 10 ^ 2" "day b < 10 ^ 2" "hour b < 10 ^ 2"
    "minute b < 10 ^ 2" "second b < 10 ^ 2" "microsecond b < 10 ^ 6"
    by (simp_all add: valid_datetime_def)
  define f where "f = (\<lambda>d::datetime. if microsecond d = 0 then [] else CHR ''.'' # zpad 6 (microsecond d))"
  define s where "s = (\<lambda>d::datetime. zpad 2 (second d) @ f d)"
  define mi where "mi = (\<lambda>d::datetime. zpad 2 (minute d) @ CHR '':'' # s d)"
  define h where "h = (\<lambda>d::datetime. zpad 2 (hour d) @ CHR '':'' # mi d)"
  define dd where "dd = (\<lambda>d::datetime. zpad 2 (day d) @ CHR ''T'' # h d)"
  define mo where "mo = (\<lambda>d::datetime. zpad 2 (month d) @ CHR ''-'' # dd d)"
  have iso: "isoformat d = zpad 4 (year d) @ CHR ''-'' # mo d" for d
    by (simp add: isoformat_def mo_def dd_def h_def mi_def s_def f_def)
  define P6 where "P6 \<longleftrightarrow> second a < second b \<or> second a = second b \<and> microsecond a < microsecond b"
  define P5 where "P5 \<longleftrightarrow> minute a < minute b \<or> minute a = minute b \<and> P6"
  define P4 where "P4 \<longleftrightarrow> hour a < hour b \<or> hour a = hour b \<and> P5"
  define P3 where "P3 \<longleftrightarrow> day a < day b \<or> day a = day b \<and> P4"
  define P2 where "P2 \<longleftrightarrow> month a < month b \<or> month a = month b \<and> P3"
  from assms(1) have P1: "year a < year b \<or> year a = year b \<and> P2"
    by (simp add: dt_less_def dt_fields_def P2_def P3_def P4_def P5_def P6_def)
  have l7: "f a < f b" if "microsecond a < microsecond b"
    unfolding f_def using that b(7) by (rule fraction_less)
  have l6: "s a < s b" if P6
    unfolding s_def using that l7 unfolding P6_def by (intro field_less [OF _ b(6)]) blast
  have l5: "mi a < mi b" if P5
    unfolding mi_def using that l6 unfolding P5_def by (intro field_less [OF _ b(5)]) auto
  have l4: "h a < h b" if P4
    unfolding h_def using that l5 unfolding P4_def by (intro field_less [OF _ b(4)]) auto
  have l3: "dd a < dd b" if P3
    unfolding dd_def using that l4 unfolding P3_def by (intro field_less [OF _ b(3)]) auto
  have l2: "mo a < mo b" if P2
    unfolding mo_def using that l3 unfolding P2_def by (intro field_less [OF _ b(2)]) auto
  have "zpad 4 (year a) @ CHR ''-'' # mo a < zpad 4 (year b) @ CHR ''-'' # mo b"
    using P1 l2 by (intro field_less [OF _ b(1)]) auto
  then show ?thesis
    by (simp only: iso)
qed

lemma dt_fields_inj: "dt_fields a = dt_fields b \<Longrightarrow> a = (b :: datetime)"
  by (cases a, cases b) (simp add: dt_fields_def)

lemma isoformat_le_iff:
  assumes "valid_datetime a" and "valid_datetime b"
  shows "isoformat a \<le> isoformat b \<longleftrightarrow> dt_le a b"
proof
  assume "dt_le a b"
  then have "dt_less a b \<or> dt_fields a = dt_fields b"
    by (auto simp: dt_le_def dt_less_def)
  then show "isoformat a \<le> isoformat b"
  proof
    assume "dt_less a b"
    then have "isoformat a < isoformat b"
      using assms(2) by (rule isoformat_less)
    then show ?thesis by simp
  next
    assume "dt_fields a = dt_fields b"
    then have "a = b" by (rule dt_fields_inj)
    then show ?thesis by simp
  qed
next
  assume le: "isoformat a \<le> isoformat b"
  show "dt_le a b"
  proof (rule ccontr)
    assume "\<not> dt_le a b"
    then have "dt_less b a"
      by (simp add: dt_le_def dt_less_def not_le)
    then have "isoformat b < isoformat a"
      using assms(1) by (rule isoformat_less)
    with le show False
      by simp
  qed
qed

subsection \<open>Delivery\<close>

text \<open>
  Claim C1, as the code has it. In every call of \<^verbatim>\<open>push_context\<close> the first effect is
  the attempt to write the source's cache file, so it precedes any network activity.
  When that write goes through, the file holds the data with its \<open>updated_at\<close> stamp,
  and the call issues exactly one POST to the push endpoint if privacy mode is off and
  the client identity is not empty, and no network call otherwise. When the write
  raises, the call issues no network call. With privacy mode on or an empty client
  identity the call issues no network call at all.
\<close>

theorem push_context_local_first:
  "(\<exists>rest. new_events w (snd (push_context cfg e source data w)) =
            OpenWrite (local_file source) # rest) \<and>
   (write_outcome_at e (tick w) (local_file source) = Written \<longrightarrow>
      files (snd (push_context cfg e source data w)) (local_file source) =
        Some (JsonText (dict_set ''updated_at''
                (JStr (isoformat (utcnow_at e (Suc (tick w))))) data)) \<and>
      filter is_network (new_events w (snd (push_context cfg e source data w))) =
        (if \<not> PRIVACY_MODE cfg \<and> CLIENT_ID cfg \<noteq> ''''
         then [HttpPost (PUSH_URL cfg)
                 [(''client_id'', JStr (CLIENT_ID cfg)), (''source'', JStr source),
                  (''data'', JObj data)] 10]
         else [])) \<and>
   (write_outcome_at e (tick w) (local_file source) \<noteq> Written \<longrightarrow>
      filter is_network (new_events w (snd (push_context cfg e source data w))) = []) \<and>
   (PRIVACY_MODE cfg \<or> CLIENT_ID cfg = '''' \<longrightarrow>
      filter is_network (new_events w (snd (push_context cfg e source data w))) = [])"
  by (auto simp: push_defs split: write_outcome.splits http_outcome.splits)

theorem push_context_local_first_witness:
  "write_outcome_at (example_env Written (http_status 200)) (tick example_world)
     (local_file ''system_info'') = Written \<and>
   PRIVACY_MODE (example_config True) \<and>
   files (snd (push_context (example_config True) (example_env Written (http_status 200))
            ''system_info'' example_data example_world)) (local_file ''system_info'') =
     Some (JsonText [(''platform'', JStr ''Linux''), (''hostname'', JStr ''vm1''),
                     (''updated_at'', JStr ''2024-03-09T07:05:00.000120'')]) \<and>
   filter is_network (new_events example_world
     (snd (push_context (example_config True) (example_env Written (http_status 200))
            ''system_info'' example_data example_world))) = []"
  using push_context_local_first [of example_world "example_config True"
    "example_env Written (http_status 200)" "''system_info''" example_data]
  by (simp add: example_defs iso_eval)

text \<open>
  The claim as stated fails on a call whose cache write raises: with privacy mode off
  and a client identity configured no POST is attempted, and in privacy mode the cache
  file is not written.
\<close>

theorem push_context_no_post_when_write_raises:
  "\<not> PRIVACY_MODE (example_config False) \<and>
   CLIENT_ID (example_config False) \<noteq> '''' \<and>
   push_context (example_config False) (example_env (OpenRaises OSError) (http_status 200))
     ''system_info'' example_data example_world =
   (Inl OSError, \<lparr>files = Map.empty, trace = [OpenWrite ''/tmp/kryv-context/system_info.json'']\<rparr>) \<and>
   PRIVACY_MODE (example_config True) \<and>
   push_context (example_config True) (example_env (OpenRaises OSError) (http_status 200))
     ''system_info'' example_data example_world =
   (Inl OSError, \<lparr>files = Map.empty, trace = [OpenWrite ''/tmp/kryv-context/system_info.json'']\<rparr>)"
  by (simp add: push_defs example_defs emit_def local_file_def LOCAL_STORE_def)

text \<open>
  Claim C3, as the code has it. When \<^verbatim>\<open>push_context\<close> issues the POST and a response
  arrives, it returns normally and has issued that one POST only; it logs the push as
  done exactly when the status is not an error status (\<^verbatim>\<open>res.ok\<close>: not in 400 to
  599), and logs the status code when it is one. When the request raises a
  \<^verbatim>\<open>RequestException\<close> (connection refused, timeout, DNS failure), the exception is
  logged and the call returns normally, again after one POST.
\<close>

theorem push_context_response_handling:
  assumes "write_outcome_at e (tick w) (local_file source) = Written"
    and "\<not> PRIVACY_MODE cfg" and "CLIENT_ID cfg \<noteq> ''''"
  shows "(\<forall>res. post_outcome_at e (Suc (tick w)) (PUSH_URL cfg) = Responds res \<longrightarrow>
            fst (push_context cfg e source data w) = Inr () \<and>
            (Log (LogPushed source data) \<in> set (new_events w (snd (push_context cfg e source data w)))
               \<longleftrightarrow> \<not> (400 \<le> status_code res \<and> status_code res < 600)) \<and>
            (400 \<le> status_code res \<and> status_code res < 600 \<longrightarrow>
               Log (LogPushFailed source (status_code res))
                 \<in> set (new_events w (snd (push_context cfg e source data w)))) \<and>
            length (filter is_post (new_events w (snd (push_context cfg e source data w)))) = 1) \<and>
         (\<forall>x. post_outcome_at e (Suc (tick w)) (PUSH_URL cfg) = HttpRaises x \<longrightarrow>
            is_RequestException x \<longrightarrow>
            fst (push_context cfg e source data w) = Inr () \<and>
            Log (LogNetworkError x) \<in> set (new_events w (snd (push_context cfg e source data w))) \<and>
            length (filter is_post (new_events w (snd (push_context cfg e source data w)))) = 1)"
  using assms by (auto simp: push_defs ok_def)

theorem push_context_response_handling_witness:
  "fst (push_context (example_config False) (example_env Written (http_status 500))
          ''system_info'' example_data example_world) = Inr () \<and>
   Log (LogPushFailed ''system_info'' 500)
     \<in> set (new_events example_world
         (snd (push_context (example_config False) (example_env Written (http_status 500))
                 ''system_info'' example_data example_world))) \<and>
   Log (LogPushed ''system_info'' example_data)
     \<notin> set (new_events example_world
         (snd (push_context (example_config False) (example_env Written (http_status 500))
                 ''system_info'' example_data example_world)))"
  using push_context_response_handling [of "example_env Written (http_status 500)"
    example_world "''system_info''" "example_config False" example_data]
  by (simp add: example_defs PUSH_URL_def)

text \<open>
  The claim as stated ties the success log to a 2xx status. A response with status 304
  is not 2xx, and the push is logged as done.
\<close>

theorem push_success_not_only_2xx:
  "\<not> (Log (LogPushed ''system_info'' example_data)
         \<in> set (new_events example_world
             (snd (push_context (example_config False) (example_env Written (http_status 304))
                     ''system_info'' example_data example_world)))
       \<longleftrightarrow> 200 \<le> status_code \<lparr>status_code = 304, body = None\<rparr> \<and>
           status_code \<lparr>status_code = 304, body = None\<rparr> < 300)"
  by (simp add: push_defs example_defs ok_def)

text \<open>
  Claim C4. When the write of the cache file raises, whether in \<^verbatim>\<open>open\<close> or in
  \<^verbatim>\<open>json.dump\<close>, \<^verbatim>\<open>push_context\<close> ends with that exception; the attempt to open
  the file is its only effect: no request is sent and no push is logged as done.
\<close>

theorem push_context_write_error_propagates:
  assumes "write_outcome_at e (tick w) (local_file source) = OpenRaises x \<or>
           write_outcome_at e (tick w) (local_file source) = DumpRaises x"
  shows "fst (push_context cfg e source data w) = Inl x \<and>
         new_events w (snd (push_context cfg e source data w)) = [OpenWrite (local_file source)] \<and>
         filter is_network (new_events w (snd (push_context cfg e source data w))) = [] \<and>
         Log (LogPushed source data) \<notin> set (new_events w (snd (push_context cfg e source data w)))"
  using assms by (auto simp: push_defs)

theorem push_context_write_error_propagates_witness:
  "fst (push_context (example_config False) (example_env (OpenRaises OSError) (http_status 200))
          ''system_info'' example_data example_world) = Inl OSError \<and>
   filter is_network (new_events example_world
     (snd (push_context (example_config False) (example_env (OpenRaises OSError) (http_status 200))
             ''system_info'' example_data example_world))) = []"
  using push_context_write_error_propagates [of "example_env (OpenRaises OSError) (http_status 200)"
    example_world "''system_info''" OSError "example_config False" example_data]
  by (simp add: example_defs)

lemmas check_defs = check_server_def new_events_def Let_def trace_emit trace_log_msg
  files_emit files_log_msg tick_emit

text \<open>
  Claim C8. \<^verbatim>\<open>check_server\<close> always returns a boolean and raises nothing. A response
  that is not an error status and whose body is a JSON object makes it log the
  \<open>version\<close> and \<open>db\<close> fields, \<open>?\<close> standing for an absent one, and return true; an
  error status (500 is one) makes it log the status code and return false; a request
  that raises, a body that is not JSON and JSON that is not an object make it log the
  exception and return false.
\<close>

theorem check_server_never_raises:
  "(\<exists>b. fst (check_server cfg e w) = Inr b) \<and>
   (\<forall>res d. get_outcome_at e (tick w) (KRYV_SERVER cfg @ ''/health'') = Responds res \<longrightarrow>
      ok res \<longrightarrow> body res = Some (JObj d) \<longrightarrow>
      fst (check_server cfg e w) = Inr True \<and>
      new_events w (snd (check_server cfg e w)) =
        [HttpGet (KRYV_SERVER cfg @ ''/health'') 5,
         Log (LogServerOK (dict_get d ''version'' (JStr ''?'')) (dict_get d ''db'' (JStr ''?'')))]) \<and>
   (\<forall>res. get_outcome_at e (tick w) (KRYV_SERVER cfg @ ''/health'') = Responds res \<longrightarrow>
      \<not> ok res \<longrightarrow>
      fst (check_server cfg e w) = Inr False \<and>
      new_events w (snd (check_server cfg e w)) =
        [HttpGet (KRYV_SERVER cfg @ ''/health'') 5, Log (LogServerReturned (status_code res))]) \<and>
   (\<forall>x. get_outcome_at e (tick w) (KRYV_SERVER cfg @ ''/health'') = HttpRaises x \<longrightarrow>
      fst (check_server cfg e w) = Inr False \<and>
      new_events w (snd (check_server cfg e w)) =
        [HttpGet (KRYV_SERVER cfg @ ''/health'') 5, Log (LogServerUnreachable x)]) \<and>
   (\<forall>res. get_outcome_at e (tick w) (KRYV_SERVER cfg @ ''/health'') = Responds res \<longrightarrow>
      ok res \<longrightarrow> (\<forall>d. body res \<noteq> Some (JObj d)) \<longrightarrow>
      fst (check_server cfg e w) = Inr False \<and>
      (\<exists>x. new_events w (snd (check_server cfg e w)) =
        [HttpGet (KRYV_SERVER cfg @ ''/health'') 5, Log (LogServerUnreachable x)])) \<and>
   \<not> ok \<lparr>status_code = 500, body = b500\<rparr>"
  by (auto simp: check_defs ok_def split: http_outcome.splits option.splits json.splits)

theorem check_server_never_raises_witness:
  "check_server (example_config False) (example_env Written (http_status 500)) example_world =
     (Inr False,
      \<lparr>files = Map.empty,
       trace = [HttpGet ''https://mcp.kryv.network/health'' 5, Log (LogServerReturned 500)]\<rparr>) \<and>
   fst (check_server (example_config False)
          (example_env Written (Responds \<lparr>status_code = 200, body = Some (JObj [(''db'', JStr ''ok'')])\<rparr>))
          example_world) = Inr True \<and>
   new_events example_world (snd (check_server (example_config False)
          (example_env Written (Responds \<lparr>status_code = 200, body = Some (JObj [(''db'', JStr ''ok'')])\<rparr>))
          example_world)) =
     [HttpGet ''https://mcp.kryv.network/health'' 5, Log (LogServerOK (JStr ''?'') (JStr ''ok''))]"
  using check_server_never_raises [of "example_config False"
      "example_env Written (http_status 500)" example_world None]
    check_server_never_raises [of "example_config False"
      "example_env Written (Responds \<lparr>status_code = 200, body = Some (JObj [(''db'', JStr ''ok'')])\<rparr>)"
      example_world None]
  by (simp add: example_defs check_defs ok_def dict_get_def log_msg_def emit_def)

lemma dict_set_new: "k \<notin> fst ` set d \<Longrightarrow> dict_set k v d = d @ [(k, v)]"
  by (induction d) auto

lemma dt_le_refl: "dt_le d d"
  by (simp add: dt_le_def)

text \<open>
  Claim C6. Take a data mapping without an \<open>updated_at\<close> key and a call whose write of
  the cache file goes through. Reading and parsing the source's cache file right after
  the call gives the stored data followed by an \<open>updated_at\<close> entry; its text parses as
  an ISO-8601 date, and that date is no earlier than the clock at the start of the call
  as long as the clock did not go back in between. What the file held before plays no
  part: the result is the same whatever the files were.
\<close>

theorem cache_store_then_read:
  assumes "write_outcome_at e (tick w) (local_file source) = Written"
    and "''updated_at'' \<notin> fst ` set data"
    and "valid_datetime (utcnow_at e (Suc (tick w)))"
    and "dt_le (utcnow_at e (tick w)) (utcnow_at e (Suc (tick w)))"
  shows "\<exists>ts t.
           read_json (files (snd (push_context cfg e source data w))) (local_file source) =
             Inr (data @ [(''updated_at'', JStr ts)]) \<and>
           fromisoformat ts = Some t \<and>
           dt_le (utcnow_at e (tick w)) t \<and>
           (\<forall>fs. read_json (files (snd (push_context cfg e source data (w\<lparr>files := fs\<rparr>))))
                   (local_file source) = Inr (data @ [(''updated_at'', JStr ts)]))"
proof -
  let ?now = "utcnow_at e (Suc (tick w))"
  have stored: "files (snd (push_context cfg e source data (w\<lparr>files := fs\<rparr>))) (local_file source) =
        Some (JsonText (data @ [(''updated_at'', JStr (isoformat ?now))]))" for fs
    using assms(1,2)
    by (auto simp: push_defs dict_set_new split: http_outcome.splits)
  have here: "w\<lparr>files := files w\<rparr> = w"
    by simp
  have "read_json (files (snd (push_context cfg e source data w))) (local_file source) =
        Inr (data @ [(''updated_at'', JStr (isoformat ?now))])"
    using stored [of "files w"] by (simp add: here read_json_def)
  moreover have "fromisoformat (isoformat ?now) = Some ?now"
    by (rule fromisoformat_isoformat [OF assms(3)])
  moreover have "\<forall>fs. read_json (files (snd (push_context cfg e source data (w\<lparr>files := fs\<rparr>))))
                   (local_file source) = Inr (data @ [(''updated_at'', JStr (isoformat ?now))])"
    using stored by (simp add: read_json_def)
  ultimately show ?thesis
    using assms(4) by blast
qed

theorem cache_store_then_read_witness:
  "write_outcome_at (example_env Written (http_status 200)) (tick example_world)
     (local_file ''system_info'') = Written \<and>
   ''updated_at'' \<notin> fst ` set example_data \<and>
   valid_datetime (utcnow_at (example_env Written (http_status 200)) (Suc (tick example_world))) \<and>
   dt_le (utcnow_at (example_env Written (http_status 200)) (tick example_world))
     (utcnow_at (example_env Written (http_status 200)) (Suc (tick example_world))) \<and>
   read_json (files (snd (push_context (example_config False) (example_env Written (http_status 200))
                ''system_info'' example_data example_world))) (local_file ''system_info'') =
     Inr [(''platform'', JStr ''Linux''), (''hostname'', JStr ''vm1''),
          (''updated_at'', JStr ''2024-03-09T07:05:00.000120'')] \<and>
   fromisoformat (isoformat example_datetime) = Some example_datetime \<and>
   isoformat example_datetime = ''2024-03-09T07:05:00.000120''"
  using cache_store_then_read [of "example_env Written (http_status 200)" example_world
      "''system_info''" example_data "example_config False"]
    fromisoformat_isoformat [of example_datetime]
  by (simp add: example_defs iso_eval valid_datetime_def dt_le_refl push_defs read_json_def)

subsection \<open>What a call adds to the trace\<close>

lemma push_context_events:
  "\<exists>evs. trace (snd (push_context cfg e source data w)) = trace w @ evs \<and>
         Log LogStartingFullSync \<notin> set evs \<and>
         (fst (push_context cfg e source data w) = Inr () \<longrightarrow>
            written_files evs = [local_file source])"
  by (auto simp: push_defs written_files_def split: write_outcome.splits http_outcome.splits)

lemma collect_and_push_events:
  "\<exists>evs. trace (snd (collect_and_push cfg e source col w)) = trace w @ evs \<and>
         Log LogStartingFullSync \<notin> set evs \<and>
         (fst (collect_and_push cfg e source col w) = Inr () \<longrightarrow>
            written_files evs = [local_file source])"
proof (cases "col (machine_at e (tick w))")
  case (Inl x)
  then show ?thesis by (simp add: collect_and_push_def)
next
  case (Inr data)
  then show ?thesis
    using push_context_events [of cfg e source data w] by (simp add: collect_and_push_def)
qed

lemma check_server_events:
  "\<exists>m b. check_server cfg e w =
           (Inr b, w\<lparr>trace := trace w @ [HttpGet (KRYV_SERVER cfg @ ''/health'') 5, Log m]\<rparr>) \<and>
         m \<noteq> LogStartingFullSync"
  by (auto simp: check_server_def Let_def log_msg_def emit_def
      split: http_outcome.splits option.splits json.splits)


lemma written_files_append: "written_files (xs @ ys) = written_files xs @ written_files ys"
  by (simp add: written_files_def)

lemma written_files_Log: "written_files (Log m # xs) = written_files xs"
  by (simp add: written_files_def)

lemma job_full_sync_events:
  "\<exists>evs. trace (snd (job_full_sync cfg e w)) = trace w @ Log LogStartingFullSync # evs \<and>
         Log LogStartingFullSync \<notin> set evs \<and>
         (fst (job_full_sync cfg e w) = Inr () \<longrightarrow>
            written_files evs =
              [local_file ''system_info'', local_file ''local_files'', local_file ''local_notes''])"
proof -
  let ?c2 = "\<lambda>m. map_sum id files_result_json (collect_local_files m None)"
  let ?c3 = "\<lambda>m. map_sum id notes_result_json (collect_notes m)"
  let ?w0 = "log_msg LogStartingFullSync w"
  obtain r1 w1 where s1: "collect_and_push cfg e ''system_info'' collect_system_info ?w0 = (r1, w1)"
    by (cases "collect_and_push cfg e ''system_info'' collect_system_info ?w0")
  obtain r2 w2 where s2: "collect_and_push cfg e ''local_files'' ?c2 w1 = (r2, w2)"
    by (cases "collect_and_push cfg e ''local_files'' ?c2 w1")
  obtain r3 w3 where s3: "collect_and_push cfg e ''local_notes'' ?c3 w2 = (r3, w3)"
    by (cases "collect_and_push cfg e ''local_notes'' ?c3 w2")
  from collect_and_push_events [of cfg e "''system_info''" collect_system_info ?w0] s1
  obtain e1 where e1: "trace w1 = trace ?w0 @ e1" "Log LogStartingFullSync \<notin> set e1"
    "r1 = Inr () \<longrightarrow> written_files e1 = [local_file ''system_info'']"
    by auto
  from collect_and_push_events [of cfg e "''local_files''" ?c2 w1] s2
  obtain e2 where e2: "trace w2 = trace w1 @ e2" "Log LogStartingFullSync \<notin> set e2"
    "r2 = Inr () \<longrightarrow> written_files e2 = [local_file ''local_files'']"
    by auto
  from collect_and_push_events [of cfg e "''local_notes''" ?c3 w2] s3
  obtain e3 where e3: "trace w3 = trace w2 @ e3" "Log LogStartingFullSync \<notin> set e3"
    "r3 = Inr () \<longrightarrow> written_files e3 = [local_file ''local_notes'']"
    by auto
  show ?thesis
  proof (cases r1)
    case (Inl x)
    with s1 e1 show ?thesis
      by (simp add: job_full_sync_def trace_log_msg)
  next
    case r1: (Inr u1)
    show ?thesis
    proof (cases r2)
      case (Inl x)
      with r1 s1 s2 e1 e2 show ?thesis
        by (simp add: job_full_sync_def trace_log_msg)
    next
      case r2: (Inr u2)
      show ?thesis
      proof (cases r3)
        case (Inl x)
        with r1 r2 s1 s2 s3 e1 e2 e3 show ?thesis
          by (simp add: job_full_sync_def trace_log_msg)
      next
        case (Inr u3)
        with r1 r2 s1 s2 s3 e1 e2 e3 show ?thesis
          by (simp add: job_full_sync_def trace_log_msg written_files_append written_files_def)
      qed
    qed
  qed
qed

subsection \<open>The scheduler keeps its jobs\<close>









subsection \<open>Startup\<close>

lemma main_startup_events:
  "\<exists>pre m evs.
     trace (snd (main_startup cfg e w)) =
       trace w @ pre @ HttpGet (KRYV_SERVER cfg @ ''/health'') 5 # Log m #
         Log LogStartingFullSync # evs \<and>
     filter is_network pre = [] \<and> Log LogStartingFullSync \<notin> set pre \<and>
     m \<noteq> LogStartingFullSync \<and> Log LogStartingFullSync \<notin> set evs \<and>
     (\<forall>jobs. fst (main_startup cfg e w) = Inr jobs \<longrightarrow>
        registered jobs = [(JobQuickSync, 1), (JobFullSync, 5), (CheckServer, 30)] \<and>
        written_files (pre @ evs) =
          [local_file ''system_info'', local_file ''local_files'', local_file ''local_notes''])"
proof -
  define w4 where "w4 = log_msg (LogPrivacyMode (PRIVACY_MODE cfg))
    (log_msg (LogClientId (CLIENT_ID cfg)) (log_msg (LogServer (KRYV_SERVER cfg))
      (log_msg LogAgentStarting w)))"
  define w5 where "w5 = (if CLIENT_ID cfg = '''' then log_msg LogWarnNoClientId w4 else w4)"
  define pre where "pre = [Log LogAgentStarting, Log (LogServer (KRYV_SERVER cfg)),
      Log (LogClientId (CLIENT_ID cfg)), Log (LogPrivacyMode (PRIVACY_MODE cfg))] @
      (if CLIENT_ID cfg = '''' then [Log LogWarnNoClientId] else [])"
  have t5: "trace w5 = trace w @ pre"
    by (simp add: w5_def w4_def pre_def trace_log_msg)
  have pre: "filter is_network pre = []" "Log LogStartingFullSync \<notin> set pre"
    "written_files pre = []"
    by (simp_all add: pre_def written_files_def)
  from check_server_events [of cfg e w5] obtain m b where
    cs: "check_server cfg e w5 =
          (Inr b, w5\<lparr>trace := trace w5 @ [HttpGet (KRYV_SERVER cfg @ ''/health'') 5, Log m]\<rparr>)"
    and m: "m \<noteq> LogStartingFullSync"
    by blast
  define w6 where "w6 = w5\<lparr>trace := trace w5 @ [HttpGet (KRYV_SERVER cfg @ ''/health'') 5, Log m]\<rparr>"
  have t6: "trace w6 = trace w @ pre @ [HttpGet (KRYV_SERVER cfg @ ''/health'') 5, Log m]"
    by (simp add: w6_def t5)
  obtain r w7 where fs: "job_full_sync cfg e w6 = (r, w7)"
    by (cases "job_full_sync cfg e w6")
  from job_full_sync_events [of cfg e w6] fs obtain evs where
    evs: "trace w7 = trace w6 @ Log LogStartingFullSync # evs"
      "Log LogStartingFullSync \<notin> set evs"
      "r = Inr () \<longrightarrow> written_files evs =
         [local_file ''system_info'', local_file ''local_files'', local_file ''local_notes'']"
    by auto
  have unfold: "main_startup cfg e w =
      (case r of Inl x \<Rightarrow> (Inl x, w7)
       | Inr u \<Rightarrow>
          (Inr (every_minutes_do e w7 30 CheckServer
                  (every_minutes_do e w7 5 JobFullSync (every_minutes_do e w7 1 JobQuickSync []))),
           log_msg LogSchedulerRunning w7))"
  proof -
    have "main_startup cfg e w =
      (case check_server cfg e w5 of
         (Inl x, w6) \<Rightarrow> (Inl x, w6)
       | (Inr _, w6) \<Rightarrow>
           (case job_full_sync cfg e w6 of
              (Inl x, w7) \<Rightarrow> (Inl x, w7)
            | (Inr _, w7) \<Rightarrow>
                (Inr (every_minutes_do e w7 30 CheckServer
                        (every_minutes_do e w7 5 JobFullSync
                           (every_minutes_do e w7 1 JobQuickSync []))),
                 log_msg LogSchedulerRunning w7)))"
      unfolding main_startup_def Let_def w5_def w4_def ..
    then show ?thesis
      by (simp add: cs w6_def [symmetric] fs split: sum.splits)
  qed
  show ?thesis
  proof (cases r)
    case (Inl x)
    with unfold evs t6 pre m show ?thesis
      by (intro exI [of _ pre] exI [of _ m] exI [of _ evs]) simp
  next
    case (Inr u)
    with unfold evs t6 pre m show ?thesis
      by (intro exI [of _ pre] exI [of _ m] exI [of _ "evs @ [Log LogSchedulerRunning]"])
        (simp add: trace_log_msg registered_def every_minutes_do_def written_files_append
          written_files_def)
  qed
qed

lemma example_startup:
  "fst (main_startup (example_config False) (example_env Written (http_status 200)) example_world) =
     Inr [\<lparr>interval = 1, job_func = JobQuickSync, last_run = None, next_run = 1710000060000000\<rparr>,
          \<lparr>interval = 5, job_func = JobFullSync, last_run = None, next_run = 1710000300000000\<rparr>,
          \<lparr>interval = 30, job_func = CheckServer, last_run = None, next_run = 1710001800000000\<rparr>]"
  by (simp add: main_startup_def check_server_def job_full_sync_def collect_and_push_def
      collect_system_info_def collect_local_files_def collect_notes_def default_watch_dirs_def
      note_dirs_def push_context_def store_local_def every_minutes_do_def now_def minutes_def
      example_env_def example_config_def example_world_def example_machine_def http_status_def
      ok_def Let_def log_msg_def emit_def tick_def)

lemma new_events_append: "trace w' = trace w @ evs \<Longrightarrow> new_events w w' = evs"
  by (simp add: new_events_def)



text \<open>
  Claim C10. Whatever the configuration, privacy mode and an empty client identity
  included, \<^verbatim>\<open>check_server\<close> begins with a GET to the health endpoint. \<^verbatim>\<open>main\<close> calls
  it at startup before any other network activity, and when startup reaches the loop
  the check is registered to run every 30 minutes; the registered job issues the same
  GET.
\<close>

theorem health_check_ignores_privacy_mode:
  "(\<exists>rest. new_events w (snd (check_server cfg e w)) =
             HttpGet (KRYV_SERVER cfg @ ''/health'') 5 # rest) \<and>
   (\<exists>pre rest. new_events w (snd (main_startup cfg e w)) =
             pre @ HttpGet (KRYV_SERVER cfg @ ''/health'') 5 # rest \<and>
             filter is_network pre = []) \<and>
   (\<forall>jobs. fst (main_startup cfg e w) = Inr jobs \<longrightarrow> (CheckServer, 30) \<in> set (registered jobs)) \<and>
   (\<exists>rest. new_events w (snd (run_job_func cfg e CheckServer w)) =
             HttpGet (KRYV_SERVER cfg @ ''/health'') 5 # rest)"
proof -
  from check_server_events [of cfg e w] obtain m b where
    cs: "check_server cfg e w =
          (Inr b, w\<lparr>trace := trace w @ [HttpGet (KRYV_SERVER cfg @ ''/health'') 5, Log m]\<rparr>)"
    by blast
  then have a: "new_events w (snd (check_server cfg e w)) =
             HttpGet (KRYV_SERVER cfg @ ''/health'') 5 # [Log m]"
    by (simp add: new_events_def)
  from cs have d: "new_events w (snd (run_job_func cfg e CheckServer w)) =
             HttpGet (KRYV_SERVER cfg @ ''/health'') 5 # [Log m]"
    by (simp add: new_events_def run_job_func_def)
  from main_startup_events [of cfg e w] obtain pre m' evs where
    tr: "trace (snd (main_startup cfg e w)) =
           trace w @ pre @ HttpGet (KRYV_SERVER cfg @ ''/health'') 5 # Log m' #
           Log LogStartingFullSync # evs"
    and pre: "filter is_network pre = []"
    and reg: "\<forall>jobs. fst (main_startup cfg e w) = Inr jobs \<longrightarrow>
        registered jobs = [(JobQuickSync, 1), (JobFullSync, 5), (CheckServer, 30)] \<and>
        written_files (pre @ evs) =
          [local_file ''system_info'', local_file ''local_files'', local_file ''local_notes'']"
    by blast
  from tr have b: "new_events w (snd (main_startup cfg e w)) =
      pre @ HttpGet (KRYV_SERVER cfg @ ''/health'') 5 # (Log m' # Log LogStartingFullSync # evs)"
    by (simp add: new_events_def)
  from reg have c: "\<forall>jobs. fst (main_startup cfg e w) = Inr jobs \<longrightarrow>
      (CheckServer, 30) \<in> set (registered jobs)"
    by simp
  from a b pre c d show ?thesis
    by blast
qed

theorem health_check_ignores_privacy_mode_witness:
  "PRIVACY_MODE ((example_config True)\<lparr>CLIENT_ID := ''''\<rparr>) \<and>
   CLIENT_ID ((example_config True)\<lparr>CLIENT_ID := ''''\<rparr>) = '''' \<and>
   new_events example_world
     (snd (check_server ((example_config True)\<lparr>CLIENT_ID := ''''\<rparr>)
             (example_env Written (http_status 200)) example_world)) =
     [HttpGet ''https://mcp.kryv.network/health'' 5,
      Log (LogServerUnreachable JSONDecodeError)] \<and>
   (CheckServer, 30) \<in> set (registered
     [\<lparr>interval = 1, job_func = JobQuickSync, last_run = None, next_run = 1710000060000000\<rparr>,
      \<lparr>interval = 5, job_func = JobFullSync, last_run = None, next_run = 1710000300000000\<rparr>,
      \<lparr>interval = 30, job_func = CheckServer, last_run = None, next_run = 1710001800000000\<rparr>])"
  using health_check_ignores_privacy_mode [of example_world
      "(example_config True)\<lparr>CLIENT_ID := ''''\<rparr>" "example_env Written (http_status 200)"]
    health_check_ignores_privacy_mode [of example_world "example_config False"
      "example_env Written (http_status 200)", THEN conjunct2, THEN conjunct2, THEN conjunct1,
      rule_format, OF example_startup]
  by (simp add: example_defs check_defs ok_def registered_def)

subsection \<open>Collectors on an empty environment\<close>






subsection \<open>The recent-files scan on walkable directories\<close>

lemma visit_file_walkable:
  assumes "walkable_item m (Yields f)" and "prefix (home m) d"
  shows "visit_file m d f =
           Inr (map_option snd (if is_recent m f then file_record m d f else None))"
    and "is_recent m f \<Longrightarrow> file_record m d f \<noteq> None"
    and "is_recent m f \<Longrightarrow> \<exists>t r dt. file_record m d f = Some (t, r) \<and>
           fromtimestamp m t = Inr dt \<and> valid_datetime dt \<and> f_modified r = isoformat dt"
  using assms
  by (auto simp: walkable_item_def visit_file_def is_recent_def file_record_def cutoff_of_def
      relative_to_def split: sum.splits bool.splits)

lemma scan_files_walkable:
  assumes "list_all (walkable_item m) its" and "prefix (home m) d"
  shows "scan_files m d its acc =
    (None, acc @ map snd (List.map_filter
       (\<lambda>f. if is_recent m f then file_record m d f else None) (entries its)))"
  using assms(1)
proof (induction its arbitrary: acc)
  case Nil
  then show ?case by (simp add: map_filter_simps)
next
  case (Cons it its)
  then obtain f where it: "it = Yields f"
    by (cases it) (simp_all add: walkable_item_def)
  from Cons.prems it have w: "walkable_item m (Yields f)" and rest: "list_all (walkable_item m) its"
    by simp_all
  show ?case
  proof (cases "is_recent m f")
    case True
    with visit_file_walkable(2) [OF w assms(2)] obtain p where p: "file_record m d f = Some p"
      by auto
    with True visit_file_walkable(1) [OF w assms(2)] have "visit_file m d f = Inr (Some (snd p))"
      by simp
    with True p it show ?thesis
      by (simp add: Cons.IH [OF rest] map_filter_simps)
  next
    case False
    with visit_file_walkable(1) [OF w assms(2)] have "visit_file m d f = Inr None"
      by simp
    with False it show ?thesis
      by (simp add: Cons.IH [OF rest] map_filter_simps)
  qed
qed

lemma scan_dirs_walkable:
  assumes "list_all (walkable m) ds"
  shows "scan_dirs m ds acc = Inr (acc @ map snd (found m ds))"
  using assms
proof (induction ds arbitrary: acc)
  case Nil
  then show ?case by (simp add: found_def)
next
  case (Cons d ds)
  from Cons.prems have d: "walkable m d" and rest: "list_all (walkable m) ds"
    by simp_all
  show ?case
  proof (cases "dir_at m d")
    case Absent
    then show ?thesis
      by (simp add: Cons.IH [OF rest] found_def found_in_def)
  next
    case (Present its)
    with d have "list_all (walkable_item m) its" "prefix (home m) d"
      by (simp_all add: walkable_def)
    then have "scan_files m d its acc = (None, acc @ map snd (found_in m d))"
      using Present by (simp add: scan_files_walkable found_in_def)
    with Present show ?thesis
      by (simp add: Cons.IH [OF rest] found_def)
  next
    case (ExistsRaises x)
    with d show ?thesis by (simp add: walkable_def)
  qed
qed

lemma length_found_in:
  assumes "walkable m d"
  shows "length (found_in m d) =
     (case dir_at m d of Present its \<Rightarrow> length (filter (is_recent m) (entries its)) | _ \<Rightarrow> 0)"
proof (cases "dir_at m d")
  case (Present its)
  with assms have w: "list_all (walkable_item m) its" and h: "prefix (home m) d"
    by (simp_all add: walkable_def)
  from w have "length (List.map_filter
       (\<lambda>f. if is_recent m f then file_record m d f else None) (entries its)) =
     length (filter (is_recent m) (entries its))"
  proof (induction its)
    case Nil
    then show ?case by (simp add: map_filter_simps)
  next
    case (Cons it its)
    then obtain f where it: "it = Yields f"
      by (cases it) (simp_all add: walkable_item_def)
    from Cons.prems it have wf: "walkable_item m (Yields f)"
      and rest: "list_all (walkable_item m) its"
      by simp_all
    from visit_file_walkable(2) [OF wf h] Cons.IH [OF rest] it show ?case
      by (cases "is_recent m f") (auto simp: map_filter_simps)
  qed
  with Present show ?thesis
    by (simp add: found_in_def)
qed (simp_all add: found_in_def)

lemma length_found:
  assumes "list_all (walkable m) ds"
  shows "length (found m ds) = recent_total m ds"
  using assms
  by (induction ds) (simp_all add: found_def recent_total_def length_found_in)

subsection \<open>Python's descending sort\<close>

lemma insort_key_map:
  "insort_key k (g x) (map g xs) = map g (insort_key (\<lambda>y. k (g y)) x xs)"
  by (induction xs) simp_all

lemma sort_key_map: "sort_key k (map g xs) = map g (sort_key (\<lambda>y. k (g y)) xs)"
  by (induction xs) (simp_all add: insort_key_map)

lemma sort_reverse_map: "sort_reverse k (map g xs) = map g (sort_reverse (\<lambda>y. k (g y)) xs)"
  by (simp add: sort_reverse_def rev_map sort_key_map)

lemma sort_reverse_descending: "sorted_wrt (\<lambda>a b. k b \<le> k a) (sort_reverse k xs)"
proof -
  have "sorted (map k (sort_key k (rev xs)))"
    by (rule sorted_sort_key)
  then have "sorted_wrt (\<lambda>a b. k a \<le> k b) (sort_key k (rev xs))"
    by (simp add: sorted_map)
  then show ?thesis
    by (simp add: sort_reverse_def sorted_wrt_rev)
qed

lemma mset_sort_reverse: "mset (sort_reverse k xs) = mset xs"
  by (simp add: sort_reverse_def)

lemma set_sort_reverse: "set (sort_reverse k xs) = set xs"
  by (simp add: sort_reverse_def)

subsection \<open>The recent-files collector\<close>

lemma found_in_valid:
  assumes "walkable m d" and "(t, r) \<in> set (found_in m d)"
  shows "\<exists>dt. fromtimestamp m t = Inr dt \<and> valid_datetime dt \<and> f_modified r = isoformat dt"
proof (cases "dir_at m d")
  case (Present its)
  with assms(1) have w: "list_all (walkable_item m) its" and h: "prefix (home m) d"
    by (simp_all add: walkable_def)
  from assms(2) Present obtain f where f: "f \<in> set (entries its)" "is_recent m f"
    "file_record m d f = Some (t, r)"
    by (auto simp: found_in_def map_filter_def split: if_splits)
  have "Yields f \<in> set its"
    using f(1) by (induction its rule: entries.induct) auto
  with w have "walkable_item m (Yields f)"
    by (simp add: list_all_iff)
  from visit_file_walkable(3) [OF this h f(2)] f(3) show ?thesis
    by auto
next
  case Absent
  with assms(2) show ?thesis by (simp add: found_in_def)
next
  case (ExistsRaises x)
  with assms(2) show ?thesis by (simp add: found_in_def)
qed

lemma found_valid:
  assumes "list_all (walkable m) ds" and "(t, r) \<in> set (found m ds)"
  shows "\<exists>dt. fromtimestamp m t = Inr dt \<and> valid_datetime dt \<and> f_modified r = isoformat dt"
proof -
  from assms(2) obtain d where "d \<in> set ds" "(t, r) \<in> set (found_in m d)"
    by (auto simp: found_def)
  moreover from this assms(1) have "walkable m d"
    by (simp add: list_all_iff)
  ultimately show ?thesis
    by (auto intro: found_in_valid)
qed

lemma iso_le_isoformat:
  assumes "valid_datetime a" and "valid_datetime b"
  shows "iso_le (isoformat a) (isoformat b) \<longleftrightarrow> isoformat a \<le> isoformat b"
  using assms by (simp add: iso_le_def fromisoformat_isoformat isoformat_le_iff)

lemma local_time_increasingD:
  assumes "local_time_increasing m ts" and "t1 \<in> set ts" and "t2 \<in> set ts" and "t1 < t2"
    and "fromtimestamp m t1 = Inr a" and "fromtimestamp m t2 = Inr b"
  shows "dt_less a b"
proof -
  from assms(1-4) have "case (fromtimestamp m t1, fromtimestamp m t2) of
      (Inr a, Inr b) \<Rightarrow> dt_less a b | _ \<Rightarrow> False"
    by (simp add: local_time_increasing_def list_all_iff)
  with assms(5,6) show ?thesis
    by simp
qed

lemma example_watch_under_home:
  "collect_local_files (example_files_machine [''home'', ''ubuntu'', ''tmpwatch''] watch_listing)
     (Some [[''home'', ''ubuntu'', ''tmpwatch'']]) =
   Inr \<lparr>recent_files =
          [\<lparr>f_name = ''a.txt'', f_path = ''tmpwatch/a.txt'', f_size_kb = 2,
            f_modified = ''2024-03-09T15:00:00'', f_type = ''.txt''\<rparr>,
           \<lparr>f_name = ''b.PDF'', f_path = ''tmpwatch/b.PDF'', f_size_kb = 15 / 10,
            f_modified = ''2024-03-09T14:00:00'', f_type = ''.pdf''\<rparr>,
           \<lparr>f_name = ''c'', f_path = ''tmpwatch/c'', f_size_kb = 1 / 10,
            f_modified = ''2024-03-09T13:00:00.500000'', f_type = ''''\<rparr>],
        files_count = 3, watched_dirs = [''/home/ubuntu/tmpwatch'']\<rparr>"
  by (simp add: collect_local_files_def example_files_machine_def watch_listing_def
      file_entry_def example_localtime_def visit_file_def cutoff_of_def relative_to_def
      path_name_def suffix_of_def rfind_dot_def lower_def lower_char_def size_kb_def
      round_half_even_def iso_eval sort_reverse_def path_str_def)

text \<open>
  Claim C2, as the code has it. Let every watched directory be missing, or be a
  directory below the user's home that is gone through without an error: the listing
  does not raise, \<^verbatim>\<open>is_file\<close> and \<^verbatim>\<open>stat\<close> answer for every path, and the modification
  time of every recent file has a local date. Then \<^verbatim>\<open>collect_local_files\<close> returns,
  and there is an arrangement of all the recent files found (the files modified within
  the last 24 hours, each with its record) such that \<open>recent_files\<close> is the records of
  its first 50 entries; in it no entry carries a later recorded modification date than
  an entry before it (equal dates may follow one another), and where local time keeps
  the order of the timestamps no entry has a later modification time than an entry
  before it. \<open>count\<close> is the number of all recent files, beyond 50 too, and
  \<open>watched_dirs\<close> lists the directories.
\<close>

theorem collect_local_files_on_walkable_dirs:
  assumes "list_all (walkable m) (case arg of None \<Rightarrow> default_watch_dirs m | Some ds \<Rightarrow> ds)"
  shows "\<exists>r ps.
           collect_local_files m arg = Inr r \<and>
           mset ps = mset (found m (case arg of None \<Rightarrow> default_watch_dirs m | Some ds \<Rightarrow> ds)) \<and>
           recent_files r = take 50 (map snd ps) \<and>
           sorted_wrt (\<lambda>p q. iso_le (f_modified (snd q)) (f_modified (snd p))) ps \<and>
           (local_time_increasing m (map fst ps) \<longrightarrow> sorted_wrt (\<lambda>p q. fst q \<le> fst p) ps) \<and>
           files_count r = recent_total m (case arg of None \<Rightarrow> default_watch_dirs m | Some ds \<Rightarrow> ds) \<and>
           length ps = recent_total m (case arg of None \<Rightarrow> default_watch_dirs m | Some ds \<Rightarrow> ds) \<and>
           watched_dirs r = map path_str (case arg of None \<Rightarrow> default_watch_dirs m | Some ds \<Rightarrow> ds)"
proof -
  define ds where "ds = (case arg of None \<Rightarrow> default_watch_dirs m | Some ds \<Rightarrow> ds)"
  define F where "F = found m ds"
  define ps where "ps = sort_reverse (\<lambda>p. f_modified (snd p)) F"
  define r where "r = \<lparr>recent_files = take 50 (map snd ps), files_count = length F,
    watched_dirs = map path_str ds\<rparr>"
  from assms have w: "list_all (walkable m) ds"
    by (simp add: ds_def)
  have "scan_dirs m ds [] = Inr (map snd F)"
    using scan_dirs_walkable [OF w, of "[]"] by (simp add: F_def)
  then have res: "collect_local_files m arg = Inr r"
    by (simp add: collect_local_files_def ds_def [symmetric] r_def ps_def sort_reverse_map)
  have perm: "mset ps = mset F"
    by (simp add: ps_def mset_sort_reverse)
  have set_ps: "set ps = set F"
    by (simp add: ps_def set_sort_reverse)
  have len: "length ps = recent_total m ds"
    using perm length_found [OF w] by (metis F_def size_mset)
  have desc: "sorted_wrt (\<lambda>p q. f_modified (snd q) \<le> f_modified (snd p)) ps"
    unfolding ps_def by (rule sort_reverse_descending)
  have valid: "\<exists>dt. fromtimestamp m (fst p) = Inr dt \<and> valid_datetime dt \<and>
      f_modified (snd p) = isoformat dt" if "p \<in> set ps" for p
    using found_valid [OF w, of "fst p" "snd p"] that by (simp add: set_ps F_def)
  have by_date: "sorted_wrt (\<lambda>p q. iso_le (f_modified (snd q)) (f_modified (snd p))) ps"
  proof (rule sorted_wrt_mono_rel [OF _ desc])
    fix p q
    assume "p \<in> set ps" "q \<in> set ps" and le: "f_modified (snd q) \<le> f_modified (snd p)"
    with valid obtain a b where "valid_datetime a" "f_modified (snd p) = isoformat a"
      "valid_datetime b" "f_modified (snd q) = isoformat b"
      by blast
    with le show "iso_le (f_modified (snd q)) (f_modified (snd p))"
      by (simp add: iso_le_isoformat)
  qed
  have by_mtime: "sorted_wrt (\<lambda>p q. fst q \<le> fst p) ps"
    if inc: "local_time_increasing m (map fst ps)"
  proof (rule sorted_wrt_mono_rel [OF _ desc])
    fix p q
    assume p: "p \<in> set ps" and q: "q \<in> set ps"
      and le: "f_modified (snd q) \<le> f_modified (snd p)"
    from valid [OF p] obtain a where a: "fromtimestamp m (fst p) = Inr a"
      "valid_datetime a" "f_modified (snd p) = isoformat a"
      by blast
    from valid [OF q] obtain b where b: "fromtimestamp m (fst q) = Inr b"
      "valid_datetime b" "f_modified (snd q) = isoformat b"
      by blast
    show "fst q \<le> fst p"
    proof (rule ccontr)
      assume "\<not> fst q \<le> fst p"
      then have "fst p < fst q"
        by simp
      with inc p q a(1) b(1) have "dt_less a b"
        by (intro local_time_increasingD [of m "map fst ps" "fst p" "fst q"]) simp_all
      then have "isoformat a < isoformat b"
        using b(2) by (rule isoformat_less)
      with le a(3) b(3) show False
        by simp
    qed
  qed
  from res perm by_date by_mtime len show ?thesis
    unfolding ds_def [symmetric] F_def [symmetric]
    by (intro exI [of _ r] exI [of _ ps]) (simp add: r_def length_found [OF w] F_def)
qed

lemma example_watch_walkable:
  "list_all (walkable (example_files_machine [''home'', ''ubuntu'', ''tmpwatch''] watch_listing))
     [[''home'', ''ubuntu'', ''tmpwatch'']]"
  by (simp add: walkable_def walkable_item_def example_files_machine_def watch_listing_def
      file_entry_def example_localtime_def valid_datetime_def)

lemma example_watch_total:
  "recent_total (example_files_machine [''home'', ''ubuntu'', ''tmpwatch''] watch_listing)
     [[''home'', ''ubuntu'', ''tmpwatch'']] = 3"
  by (simp add: recent_total_def is_recent_def example_files_machine_def watch_listing_def
      file_entry_def)

theorem collect_local_files_on_walkable_dirs_witness:
  "list_all (walkable (example_files_machine [''home'', ''ubuntu'', ''tmpwatch''] watch_listing))
     [[''home'', ''ubuntu'', ''tmpwatch'']] \<and>
   collect_local_files (example_files_machine [''home'', ''ubuntu'', ''tmpwatch''] watch_listing)
     (Some [[''home'', ''ubuntu'', ''tmpwatch'']]) =
   Inr \<lparr>recent_files =
          [\<lparr>f_name = ''a.txt'', f_path = ''tmpwatch/a.txt'', f_size_kb = 2,
            f_modified = ''2024-03-09T15:00:00'', f_type = ''.txt''\<rparr>,
           \<lparr>f_name = ''b.PDF'', f_path = ''tmpwatch/b.PDF'', f_size_kb = 15 / 10,
            f_modified = ''2024-03-09T14:00:00'', f_type = ''.pdf''\<rparr>,
           \<lparr>f_name = ''c'', f_path = ''tmpwatch/c'', f_size_kb = 1 / 10,
            f_modified = ''2024-03-09T13:00:00.500000'', f_type = ''''\<rparr>],
        files_count = 3, watched_dirs = [''/home/ubuntu/tmpwatch'']\<rparr> \<and>
   recent_total (example_files_machine [''home'', ''ubuntu'', ''tmpwatch''] watch_listing)
     [[''home'', ''ubuntu'', ''tmpwatch'']] = 3"
proof -
  let ?m = "example_files_machine [''home'', ''ubuntu'', ''tmpwatch''] watch_listing"
  let ?arg = "Some [[''home'', ''ubuntu'', ''tmpwatch'']]"
  have hyp: "list_all (walkable ?m) (case ?arg of None \<Rightarrow> default_watch_dirs ?m | Some ds \<Rightarrow> ds)"
    using example_watch_walkable by simp
  from collect_local_files_on_walkable_dirs [OF hyp] obtain r where
    "collect_local_files ?m ?arg = Inr r"
    "files_count r = recent_total ?m [[''home'', ''ubuntu'', ''tmpwatch'']]"
    by auto
  then show ?thesis
    using example_watch_walkable example_watch_under_home example_watch_total by simp
qed

text \<open>
  The claim as stated fails in each of these ways. On a temporary folder outside the
  user's home the call raises ValueError when it takes the first recent file's path
  relative to the home directory. Two files modified at the same moment are listed one
  after the other, so the list is not strictly descending. A file that is gone when
  \<^verbatim>\<open>stat\<close> is called, or whose modification time has no local date, makes the call
  raise; a path that may not be looked at ends the scan of its folder, and the recent
  file after it is neither listed nor counted. And where the clocks are set back the
  file modified earlier carries the later local time and is listed first.
\<close>

theorem collect_local_files_not_as_claimed:
  "collect_local_files (example_files_machine [''tmp'', ''watch''] watch_listing)
     (Some [[''tmp'', ''watch'']]) = Inl ValueError \<and>
   collect_local_files (example_files_machine [''home'', ''ubuntu'', ''tmpwatch''] tie_listing)
     (Some [[''home'', ''ubuntu'', ''tmpwatch'']]) =
   Inr \<lparr>recent_files =
          [\<lparr>f_name = ''x.txt'', f_path = ''tmpwatch/x.txt'', f_size_kb = 0,
            f_modified = ''2024-03-09T15:00:00'', f_type = ''.txt''\<rparr>,
           \<lparr>f_name = ''y.txt'', f_path = ''tmpwatch/y.txt'', f_size_kb = 0,
            f_modified = ''2024-03-09T15:00:00'', f_type = ''.txt''\<rparr>],
        files_count = 2, watched_dirs = [''/home/ubuntu/tmpwatch'']\<rparr> \<and>
   \<not> sorted_wrt (\<lambda>a b. f_modified b < f_modified a)
     [\<lparr>f_name = ''x.txt'', f_path = ''tmpwatch/x.txt'', f_size_kb = 0,
       f_modified = ''2024-03-09T15:00:00'', f_type = ''.txt''\<rparr>,
      \<lparr>f_name = ''y.txt'', f_path = ''tmpwatch/y.txt'', f_size_kb = 0,
       f_modified = ''2024-03-09T15:00:00'', f_type = ''.txt''\<rparr>] \<and>
   collect_local_files (example_files_machine [''home'', ''ubuntu'', ''tmpwatch''] vanished_listing)
     (Some [[''home'', ''ubuntu'', ''tmpwatch'']]) = Inl FileNotFoundError \<and>
   collect_local_files (example_files_machine [''home'', ''ubuntu'', ''tmpwatch''] future_listing)
     (Some [[''home'', ''ubuntu'', ''tmpwatch'']]) = Inl OverflowError \<and>
   collect_local_files (example_files_machine [''home'', ''ubuntu'', ''tmpwatch''] locked_listing)
     (Some [[''home'', ''ubuntu'', ''tmpwatch'']]) =
   Inr \<lparr>recent_files = [], files_count = 0, watched_dirs = [''/home/ubuntu/tmpwatch'']\<rparr> \<and>
   recent_total (example_files_machine [''home'', ''ubuntu'', ''tmpwatch''] locked_listing)
     [[''home'', ''ubuntu'', ''tmpwatch'']] = 1 \<and>
   collect_local_files (dst_machine [''home'', ''ubuntu'', ''tmpwatch''])
     (Some [[''home'', ''ubuntu'', ''tmpwatch'']]) =
   Inr \<lparr>recent_files =
          [\<lparr>f_name = ''early.txt'', f_path = ''tmpwatch/early.txt'', f_size_kb = 0,
            f_modified = ''2024-10-27T02:59:59'', f_type = ''.txt''\<rparr>,
           \<lparr>f_name = ''late.txt'', f_path = ''tmpwatch/late.txt'', f_size_kb = 0,
            f_modified = ''2024-10-27T02:00:00'', f_type = ''.txt''\<rparr>],
        files_count = 2, watched_dirs = [''/home/ubuntu/tmpwatch'']\<rparr> \<and>
   found (dst_machine [''home'', ''ubuntu'', ''tmpwatch'']) [[''home'', ''ubuntu'', ''tmpwatch'']] =
     [(1729990800000000,
       \<lparr>f_name = ''late.txt'', f_path = ''tmpwatch/late.txt'', f_size_kb = 0,
        f_modified = ''2024-10-27T02:00:00'', f_type = ''.txt''\<rparr>),
      (1729990799000000,
       \<lparr>f_name = ''early.txt'', f_path = ''tmpwatch/early.txt'', f_size_kb = 0,
        f_modified = ''2024-10-27T02:59:59'', f_type = ''.txt''\<rparr>)]"
  by (simp add: collect_local_files_def example_files_machine_def watch_listing_def
      tie_listing_def vanished_listing_def future_listing_def locked_listing_def
      dst_machine_def dst_listing_def dst_localtime_def file_entry_def example_localtime_def
      visit_file_def cutoff_of_def relative_to_def path_name_def suffix_of_def rfind_dot_def
      lower_def lower_char_def size_kb_def round_half_even_def iso_eval sort_reverse_def
      path_str_def recent_total_def is_recent_def found_def found_in_def file_record_def
      map_filter_def)

subsection \<open>Trimming and splitting\<close>

lemma rev_dropWhile_rev:
  "rev (dropWhile P (rev t)) @ rev (takeWhile P (rev t)) = t"
proof -
  have "rev (dropWhile P (rev t)) @ rev (takeWhile P (rev t)) =
        rev (takeWhile P (rev t) @ dropWhile P (rev t))"
    by (simp only: rev_append)
  also have "\<dots> = rev (rev t)"
    by (simp only: takeWhile_dropWhile_id)
  finally show ?thesis
    by simp
qed

lemma strip_append: "dropWhile is_space s = strip s @ rev (takeWhile is_space (rev (dropWhile is_space s)))"
  unfolding strip_def by (rule rev_dropWhile_rev [symmetric])

lemma strip_decomposes:
  "\<exists>l r. s = l @ strip s @ r \<and> list_all is_space l \<and> list_all is_space r"
proof -
  let ?r = "rev (takeWhile is_space (rev (dropWhile is_space s)))"
  have "s = takeWhile is_space s @ dropWhile is_space s"
    by simp
  also have "dropWhile is_space s = strip s @ ?r"
    by (rule strip_append)
  finally have "s = takeWhile is_space s @ strip s @ ?r" .
  moreover have "list_all is_space (takeWhile is_space s)" "list_all is_space ?r"
    by (auto simp: list_all_iff dest: set_takeWhileD)
  ultimately show ?thesis
    by blast
qed

lemma hd_dropWhile_append: "u \<noteq> [] \<Longrightarrow> t = u @ r \<Longrightarrow> hd t = hd u \<and> t \<noteq> []"
  by simp

lemma strip_ends: "strip s = [] \<or> \<not> is_space (hd (strip s)) \<and> \<not> is_space (last (strip s))"
proof (cases "strip s = []")
  case True
  then show ?thesis by simp
next
  case False
  let ?t = "dropWhile is_space s"
  let ?u = "dropWhile is_space (rev ?t)"
  from False have u: "?u \<noteq> []"
    by (simp only: strip_def rev_is_Nil_conv not_False_eq_True)
  then have "\<not> is_space (hd ?u)"
    by (rule hd_dropWhile)
  moreover have "last (strip s) = hd ?u"
    using u by (simp only: strip_def last_rev)
  ultimately have l: "\<not> is_space (last (strip s))"
    by simp
  have h: "hd ?t = hd (strip s) \<and> ?t \<noteq> []"
    using False strip_append by (rule hd_dropWhile_append)
  from h have "?t \<noteq> []"
    by (rule conjunct2)
  then have "\<not> is_space (hd ?t)"
    by (rule hd_dropWhile)
  with h l show ?thesis
    by simp
qed

lemma length_split_ws:
  "length (split_ws cur s) = (if cur = [] then word_starts True s else Suc (word_starts False s))"
  by (induction s arbitrary: cur) auto

lemma length_split: "length (split s) = word_starts True s"
  by (simp add: split_def length_split_ws)

lemma concat_split_ws: "concat (split_ws cur s) = cur @ filter (\<lambda>c. \<not> is_space c) s"
  by (induction s arbitrary: cur) auto

lemma concat_split: "concat (split s) = filter (\<lambda>c. \<not> is_space c) s"
  by (simp add: split_def concat_split_ws)

lemma strip_trimmed: "trimmed_of (strip s) s"
proof -
  from strip_decomposes [of s] obtain l r where
    s: "s = l @ strip s @ r" and l: "list_all is_space l" and r: "list_all is_space r"
    by blast
  from s have "prefix l s"
    by (metis prefixI)
  moreover from s have "suffix r s"
    by (metis append.assoc suffixI)
  ultimately have "l \<in> set (prefixes s)" "r \<in> set (suffixes s)"
    by (simp_all add: in_set_prefixes in_set_suffixes)
  with s l r strip_ends [of s] show ?thesis
    unfolding trimmed_of_def by blast
qed

subsection \<open>The notes scan on listable directories\<close>

lemma read_note_record:
  assumes "prefix (home m) d"
  shows "note_record m d f = Some (t, c, n) \<Longrightarrow> read_note m d f = Inr n"
    and "note_record m d f = None \<Longrightarrow> \<exists>x. read_note m d f = Inl x"
  using assms
  by (auto simp: note_record_def read_note_def relative_to_def split: sum.splits)

lemma is_note_file_listable:
  assumes "listable_item m (Yields f)"
  shows "is_note_file d f = Inr (is_note d f)"
  using assms
  by (auto simp: listable_item_def is_note_file_def is_note_def extensions_def split: sum.splits)

lemma scan_notes_listable:
  assumes "list_all (listable_item m) its" and "prefix (home m) d"
  shows "scan_notes m d its acc =
    Inr (acc @ map (\<lambda>p. snd (snd p)) (List.map_filter
       (\<lambda>f. if is_note d f then note_record m d f else None) (entries its)))"
  using assms(1)
proof (induction its arbitrary: acc)
  case Nil
  then show ?case by (simp add: map_filter_simps)
next
  case (Cons it its)
  then obtain f where it: "it = Yields f"
    by (cases it) (simp_all add: listable_item_def)
  from Cons.prems it have w: "listable_item m (Yields f)" and rest: "list_all (listable_item m) its"
    by simp_all
  note nf = is_note_file_listable [OF w, of d]
  show ?case
  proof (cases "is_note d f")
    case False
    with nf it show ?thesis
      by (simp add: Cons.IH [OF rest] map_filter_simps)
  next
    case True
    show ?thesis
    proof (cases "note_record m d f")
      case None
      with read_note_record(2) [OF assms(2)] obtain x where "read_note m d f = Inl x"
        by blast
      with True None nf it show ?thesis
        by (simp add: Cons.IH [OF rest] map_filter_simps)
    next
      case (Some p)
      obtain t c n where p: "p = (t, c, n)"
        by (cases p)
      with Some read_note_record(1) [OF assms(2)] have "read_note m d f = Inr n"
        by blast
      with True Some p nf it show ?thesis
        by (simp add: Cons.IH [OF rest] map_filter_simps)
    qed
  qed
qed

lemma scan_note_dirs_listable:
  assumes "list_all (listable m) ds" and "list_all (prefix (home m)) ds"
  shows "scan_note_dirs m ds acc = Inr (acc @ map (\<lambda>p. snd (snd p)) (concat (map (notes_in m) ds)))"
  using assms
proof (induction ds arbitrary: acc)
  case Nil
  then show ?case by simp
next
  case (Cons d ds)
  from Cons.prems have d: "listable m d" and h: "prefix (home m) d"
    and rest: "list_all (listable m) ds" "list_all (prefix (home m)) ds"
    by simp_all
  show ?case
  proof (cases "dir_at m d")
    case Absent
    then show ?thesis
      by (simp add: Cons.IH [OF rest] notes_in_def)
  next
    case (Present its)
    with d have "list_all (listable_item m) its"
      by (simp add: listable_def)
    then have "scan_notes m d its acc = Inr (acc @ map (\<lambda>p. snd (snd p)) (notes_in m d))"
      using Present h by (simp add: scan_notes_listable notes_in_def)
    with Present show ?thesis
      by (simp add: Cons.IH [OF rest])
  next
    case (ExistsRaises x)
    with d show ?thesis by (simp add: listable_def)
  qed
qed

lemma note_dirs_below_home: "list_all (prefix (home m)) (note_dirs m)"
  by (simp add: note_dirs_def)

lemma Yields_in_entries: "f \<in> set (entries its) \<Longrightarrow> Yields f \<in> set its"
  by (induction its rule: entries.induct) auto

lemma notes_found_valid:
  assumes "list_all (listable m) (note_dirs m)" and "(t, c, n) \<in> set (notes_found m)"
  shows "\<exists>dt. fromtimestamp m t = Inr dt \<and> valid_datetime dt \<and> n_modified n = isoformat dt"
    and "n_preview n = strip (take 200 c)"
    and "n_word_count n = length (split c)"
proof -
  from assms(2) obtain d where d: "d \<in> set (note_dirs m)" "(t, c, n) \<in> set (notes_in m d)"
    by (auto simp: notes_found_def)
  then obtain its where its: "dir_at m d = Present its"
    by (cases "dir_at m d") (simp_all add: notes_in_def)
  with d(2) obtain f where f: "f \<in> set (entries its)" "note_record m d f = Some (t, c, n)"
    by (auto simp: notes_in_def map_filter_def split: if_splits)
  from d(1) assms(1) its have "list_all (listable_item m) its"
    by (auto simp: list_all_iff listable_def)
  with Yields_in_entries [OF f(1)] have w: "listable_item m (Yields f)"
    by (simp add: list_all_iff)
  from f(2) w show "\<exists>dt. fromtimestamp m t = Inr dt \<and> valid_datetime dt \<and> n_modified n = isoformat dt"
    by (auto simp: note_record_def listable_item_def split: sum.splits)
  from f(2) show "n_preview n = strip (take 200 c)" "n_word_count n = length (split c)"
    by (auto simp: note_record_def split: sum.splits)
qed

lemma length_map_filter_le: "length (List.map_filter g xs) \<le> length (filter P xs)"
  if "\<And>x. g x \<noteq> None \<Longrightarrow> P x"
  using that by (induction xs) (auto simp: map_filter_simps split: option.splits)

lemma length_map_filter_eq:
  "list_all (\<lambda>x. P x \<longrightarrow> g x \<noteq> None) xs \<Longrightarrow>
   length (List.map_filter (\<lambda>x. if P x then g x else None) xs) = length (filter P xs)"
  by (induction xs) (auto simp: map_filter_simps split: option.splits)

lemma length_notes_found_le: "length (notes_found m) \<le> notes_total m"
proof -
  have "length (notes_in m d) \<le>
      (case dir_at m d of Present its \<Rightarrow> length (filter (is_note d) (entries its)) | _ \<Rightarrow> 0)" for d
    by (cases "dir_at m d") (auto simp: notes_in_def intro!: length_map_filter_le split: if_splits)
  then show ?thesis
    by (simp add: notes_found_def notes_total_def length_concat comp_def sum_list_mono)
qed

lemma length_notes_found_eq:
  assumes "all_notes_recorded m"
  shows "length (notes_found m) = notes_total m"
proof -
  have "length (notes_in m d) =
      (case dir_at m d of Present its \<Rightarrow> length (filter (is_note d) (entries its)) | _ \<Rightarrow> 0)"
    if "d \<in> set (note_dirs m)" for d
    using that assms
    by (cases "dir_at m d") (auto simp: notes_in_def all_notes_recorded_def list_all_iff
        intro!: length_map_filter_eq)
  then show ?thesis
    by (simp add: notes_found_def notes_total_def length_concat comp_def cong: map_cong)
qed

subsection \<open>The notes collector\<close>

text \<open>
  Claim C7, as the code has it. Let every note directory be missing or be gone through
  without an error: the listing does not raise and \<^verbatim>\<open>is_file\<close> answers for every path.
  Then \<^verbatim>\<open>collect_notes\<close> returns, and there is an arrangement of the note files that
  have a record (those whose content, status and local modification date are obtained
  without an error) such that \<open>notes\<close> is the records of its first 20 entries. In each
  record the preview is the first 200 characters of the content (all of it when it is
  shorter) trimmed of leading and trailing whitespace, and the word count is the
  number of whitespace-separated words of the whole content. In the arrangement no
  entry carries a later recorded modification date than an entry before it, and where
  local time keeps the order of the timestamps no entry has a later modification time
  than an entry before it. \<open>count\<close> is the number of the note files that have a
  record; it is at most the number of note files found, and equal to it when every
  note file found has a record.
\<close>

theorem collect_notes_on_listable_dirs:
  assumes "list_all (listable m) (note_dirs m)"
  shows "\<exists>r ps.
           collect_notes m = Inr r \<and>
           mset ps = mset (notes_found m) \<and>
           notes_list r = take 20 (map (\<lambda>p. snd (snd p)) ps) \<and>
           (\<forall>p \<in> set ps.
              trimmed_of (n_preview (snd (snd p))) (take 200 (fst (snd p))) \<and>
              n_word_count (snd (snd p)) = word_starts True (fst (snd p))) \<and>
           sorted_wrt (\<lambda>p q. iso_le (n_modified (snd (snd q))) (n_modified (snd (snd p)))) ps \<and>
           (local_time_increasing m (map fst ps) \<longrightarrow> sorted_wrt (\<lambda>p q. fst q \<le> fst p) ps) \<and>
           notes_count r = length (notes_found m) \<and>
           notes_count r \<le> notes_total m \<and>
           (all_notes_recorded m \<longrightarrow> notes_count r = notes_total m)"
proof -
  define F where "F = notes_found m"
  define ps where "ps = sort_reverse (\<lambda>p. n_modified (snd (snd p))) F"
  define r where "r = \<lparr>notes_list = take 20 (map (\<lambda>p. snd (snd p)) ps), notes_count = length F\<rparr>"
  have "scan_note_dirs m (note_dirs m) [] = Inr (map (\<lambda>p. snd (snd p)) F)"
    using scan_note_dirs_listable [OF assms note_dirs_below_home, of "[]"]
    by (simp add: F_def notes_found_def)
  then have res: "collect_notes m = Inr r"
    by (simp add: collect_notes_def r_def ps_def sort_reverse_map)
  have perm: "mset ps = mset F"
    by (simp add: ps_def mset_sort_reverse)
  have set_ps: "set ps = set F"
    by (simp add: ps_def set_sort_reverse)
  have desc: "sorted_wrt (\<lambda>p q. n_modified (snd (snd q)) \<le> n_modified (snd (snd p))) ps"
    unfolding ps_def by (rule sort_reverse_descending)
  have valid: "\<exists>dt. fromtimestamp m (fst p) = Inr dt \<and> valid_datetime dt \<and>
      n_modified (snd (snd p)) = isoformat dt" if "p \<in> set ps" for p
    using notes_found_valid(1) [OF assms, of "fst p" "fst (snd p)" "snd (snd p)"] that
    by (simp add: set_ps F_def)
  have fields: "trimmed_of (n_preview (snd (snd p))) (take 200 (fst (snd p))) \<and>
      n_word_count (snd (snd p)) = word_starts True (fst (snd p))" if "p \<in> set ps" for p
  proof -
    from that have "(fst p, fst (snd p), snd (snd p)) \<in> set (notes_found m)"
      by (simp add: set_ps F_def)
    from notes_found_valid(2,3) [OF assms this] show ?thesis
      by (simp add: strip_trimmed length_split)
  qed
  have by_date: "sorted_wrt (\<lambda>p q. iso_le (n_modified (snd (snd q))) (n_modified (snd (snd p)))) ps"
  proof (rule sorted_wrt_mono_rel [OF _ desc])
    fix p q
    assume "p \<in> set ps" "q \<in> set ps"
      and le: "n_modified (snd (snd q)) \<le> n_modified (snd (snd p))"
    with valid obtain a b where "valid_datetime a" "n_modified (snd (snd p)) = isoformat a"
      "valid_datetime b" "n_modified (snd (snd q)) = isoformat b"
      by blast
    with le show "iso_le (n_modified (snd (snd q))) (n_modified (snd (snd p)))"
      by (simp add: iso_le_isoformat)
  qed
  have by_mtime: "sorted_wrt (\<lambda>p q. fst q \<le> fst p) ps"
    if inc: "local_time_increasing m (map fst ps)"
  proof (rule sorted_wrt_mono_rel [OF _ desc])
    fix p q
    assume p: "p \<in> set ps" and q: "q \<in> set ps"
      and le: "n_modified (snd (snd q)) \<le> n_modified (snd (snd p))"
    from valid [OF p] obtain a where a: "fromtimestamp m (fst p) = Inr a"
      "valid_datetime a" "n_modified (snd (snd p)) = isoformat a"
      by blast
    from valid [OF q] obtain b where b: "fromtimestamp m (fst q) = Inr b"
      "valid_datetime b" "n_modified (snd (snd q)) = isoformat b"
      by blast
    show "fst q \<le> fst p"
    proof (rule ccontr)
      assume "\<not> fst q \<le> fst p"
      then have "fst p < fst q"
        by simp
      with inc p q a(1) b(1) have "dt_less a b"
        by (intro local_time_increasingD [of m "map fst ps" "fst p" "fst q"]) simp_all
      then have "isoformat a < isoformat b"
        using b(2) by (rule isoformat_less)
      with le a(3) b(3) show False
        by simp
    qed
  qed
  have le_total: "length F \<le> notes_total m"
    unfolding F_def by (rule length_notes_found_le)
  have eq_total: "length F = notes_total m" if "all_notes_recorded m"
    unfolding F_def using that by (rule length_notes_found_eq)
  from res perm fields by_date by_mtime le_total eq_total show ?thesis
    unfolding F_def [symmetric]
    by (intro exI [of _ r] exI [of _ ps]) (simp add: r_def)
qed

lemmas notes_eval = collect_notes_def note_dirs_def example_files_machine_def
  file_entry_def example_localtime_def read_note_def is_note_file_def extensions_def
  relative_to_def path_name_def suffix_of_def rfind_dot_def lower_def lower_char_def
  strip_def split_def is_space_def iso_eval sort_reverse_def

lemma example_notes_listable:
  "list_all (listable (example_files_machine [''home'', ''ubuntu'', ''Notes''] notes_listing))
     (note_dirs (example_files_machine [''home'', ''ubuntu'', ''Notes''] notes_listing))"
  by (simp add: listable_def listable_item_def note_dirs_def example_files_machine_def
      notes_listing_def file_entry_def example_localtime_def valid_datetime_def)

lemma example_notes_result:
  "collect_notes (example_files_machine [''home'', ''ubuntu'', ''Notes''] notes_listing) =
   Inr \<lparr>notes_list =
          [\<lparr>n_name = ''Ideas.TXT'', n_path = ''Notes/Ideas.TXT'', n_preview = ''ideas'',
            n_word_count = 1, n_modified = ''2024-03-09T15:00:00''\<rparr>,
           \<lparr>n_name = ''todo.md'', n_path = ''Notes/todo.md'', n_preview = ''buy milk  and eggs'',
            n_word_count = 4, n_modified = ''2024-03-09T14:00:00''\<rparr>,
           \<lparr>n_name = ''old.text'', n_path = ''Notes/old.text'', n_preview = '''',
            n_word_count = 0, n_modified = ''2024-03-09T13:00:00.500000''\<rparr>],
        notes_count = 3\<rparr>"
  by (simp add: notes_eval notes_listing_def)

lemma example_notes_total:
  "notes_total (example_files_machine [''home'', ''ubuntu'', ''Notes''] notes_listing) = 3"
  by (simp add: notes_total_def is_note_def note_dirs_def example_files_machine_def
      notes_listing_def file_entry_def path_name_def suffix_of_def rfind_dot_def lower_def
      lower_char_def)

lemma example_notes_recorded:
  "all_notes_recorded (example_files_machine [''home'', ''ubuntu'', ''Notes''] notes_listing)"
  by (simp add: all_notes_recorded_def note_record_def is_note_def note_dirs_def
      example_files_machine_def notes_listing_def file_entry_def example_localtime_def)

theorem collect_notes_on_listable_dirs_witness:
  "list_all (listable (example_files_machine [''home'', ''ubuntu'', ''Notes''] notes_listing))
     (note_dirs (example_files_machine [''home'', ''ubuntu'', ''Notes''] notes_listing)) \<and>
   all_notes_recorded (example_files_machine [''home'', ''ubuntu'', ''Notes''] notes_listing) \<and>
   collect_notes (example_files_machine [''home'', ''ubuntu'', ''Notes''] notes_listing) =
   Inr \<lparr>notes_list =
          [\<lparr>n_name = ''Ideas.TXT'', n_path = ''Notes/Ideas.TXT'', n_preview = ''ideas'',
            n_word_count = 1, n_modified = ''2024-03-09T15:00:00''\<rparr>,
           \<lparr>n_name = ''todo.md'', n_path = ''Notes/todo.md'', n_preview = ''buy milk  and eggs'',
            n_word_count = 4, n_modified = ''2024-03-09T14:00:00''\<rparr>,
           \<lparr>n_name = ''old.text'', n_path = ''Notes/old.text'', n_preview = '''',
            n_word_count = 0, n_modified = ''2024-03-09T13:00:00.500000''\<rparr>],
        notes_count = 3\<rparr> \<and>
   notes_total (example_files_machine [''home'', ''ubuntu'', ''Notes''] notes_listing) = 3"
proof -
  let ?m = "example_files_machine [''home'', ''ubuntu'', ''Notes''] notes_listing"
  from collect_notes_on_listable_dirs [OF example_notes_listable] obtain r where
    "collect_notes ?m = Inr r" "all_notes_recorded ?m \<longrightarrow> notes_count r = notes_total ?m"
    by auto
  then show ?thesis
    using example_notes_listable example_notes_recorded example_notes_result example_notes_total
    by simp
qed

text \<open>
  The claim as stated fails in each of these ways. A note file that may not be read is
  found but not counted, and a note file that is read but whose modification time has
  no local date gets no record: of three note files found the count is 1. A path that
  may not be looked at makes the call raise, so that nothing is recorded. And where
  the clocks are set back the note modified earlier carries the later local time and
  is listed first.
\<close>

theorem collect_notes_not_as_claimed:
  "collect_notes (example_files_machine [''home'', ''ubuntu'', ''Notes''] unread_listing) =
   Inr \<lparr>notes_list =
          [\<lparr>n_name = ''todo.md'', n_path = ''Notes/todo.md'', n_preview = ''buy milk'',
            n_word_count = 2, n_modified = ''2024-03-09T14:00:00''\<rparr>],
        notes_count = 1\<rparr> \<and>
   notes_total (example_files_machine [''home'', ''ubuntu'', ''Notes''] unread_listing) = 3 \<and>
   collect_notes (example_files_machine [''home'', ''ubuntu'', ''Notes''] locked_listing) =
   Inl PermissionError \<and>
   collect_notes (dst_machine [''home'', ''ubuntu'', ''Notes'']) =
   Inr \<lparr>notes_list =
          [\<lparr>n_name = ''early.txt'', n_path = ''Notes/early.txt'', n_preview = ''before'',
            n_word_count = 1, n_modified = ''2024-10-27T02:59:59''\<rparr>,
           \<lparr>n_name = ''late.txt'', n_path = ''Notes/late.txt'', n_preview = ''after'',
            n_word_count = 1, n_modified = ''2024-10-27T02:00:00''\<rparr>],
        notes_count = 2\<rparr> \<and>
   notes_found (dst_machine [''home'', ''ubuntu'', ''Notes'']) =
     [(1729990800000000, ''after'',
       \<lparr>n_name = ''late.txt'', n_path = ''Notes/late.txt'', n_preview = ''after'',
        n_word_count = 1, n_modified = ''2024-10-27T02:00:00''\<rparr>),
      (1729990799000000, ''before'',
       \<lparr>n_name = ''early.txt'', n_path = ''Notes/early.txt'', n_preview = ''before'',
        n_word_count = 1, n_modified = ''2024-10-27T02:59:59''\<rparr>)]"
  by (simp add: notes_eval unread_listing_def locked_listing_def dst_machine_def dst_listing_def
      dst_localtime_def notes_total_def is_note_def notes_found_def notes_in_def note_record_def
      map_filter_def)

end
